theory Spec2Isabelle
  imports Main "HOL-Library.Char_ord" "HOL-Library.List_Lexorder"
begin

section \<open>Data model\<close>

text \<open>
  The tables of the relational schema, with the columns the check-in service reads or
  writes. A table is the list of its rows. \<open>seatNumber\<close> is a TEXT column; it is
  ordered as a string (lexicographically, character by character).
  The columns that no operation below reads (seat type, price, passenger, timestamps)
  are left out. The columns \<open>id\<close> and \<open>flightId\<close> of a seat are the fields
  \<open>seat_id\<close> and \<open>seat_flightId\<close>, and the column \<open>id\<close> of a flight is
  \<open>flight_id\<close>.
\<close>

record flight =
  flight_id :: int
  flightNumber :: string
  totalSeats :: int

record seat =
  seat_id :: int
  seat_flightId :: int
  seatNumber :: string
  isAvailable :: bool

record booking =
  pnr :: string
  flightId :: int
  seatId :: "int option"
  checkedIn :: bool

record db =
  flights :: "flight list"
  seats :: "seat list"
  bookings :: "booking list"

text \<open>
  What a call can throw: a plain JavaScript \<open>Error\<close> with its message, or an error
  of the storage client with its code (\<open>P2025\<close>: the record to update was not found;
  \<open>P2002\<close>: a unique constraint rejected the write; \<open>P2020\<close>: a value of the query is
  out of range for its column; \<open>P2010\<close>: a raw query failed).
\<close>

datatype error = Error string | PrismaClientKnownRequestError string

text \<open>The object a successful assignment returns; only the unsafe method reports
  \<open>attemptsNeeded\<close>.\<close>

record assign_result =
  success :: bool
  r_seatNumber :: string
  r_seatId :: int
  r_method :: string
  attemptsNeeded :: "nat option"

text \<open>The unique indexes of the schema: the primary key of \<open>seats\<close>,
  \<open>seats_flightId_seatNumber_key\<close>, \<open>bookings_pnr_key\<close> and
  \<open>bookings_seatId_key\<close> (which, as every unique index, admits any number of NULLs).\<close>

definition wf_db :: "db \<Rightarrow> bool" where
  "wf_db d \<longleftrightarrow>
     distinct (map seat_id (seats d)) \<and>
     distinct (map (\<lambda>s. (seat_flightId s, seatNumber s)) (seats d)) \<and>
     distinct (map pnr (bookings d)) \<and>
     distinct (List.map_filter seatId (bookings d))"

section \<open>Store operations\<close>

text \<open>The values an INTEGER column holds (32 bits, signed). A query that compares such a
  column with a number outside this range is refused by the storage client: the call throws
  and no row is read.\<close>

definition int4 :: "int \<Rightarrow> bool" where
  "int4 i \<longleftrightarrow> - 2147483648 \<le> i \<and> i \<le> 2147483647"

definition booking_findUnique :: "string \<Rightarrow> db \<Rightarrow> booking option" where
  "booking_findUnique p d = find (\<lambda>b. pnr b = p) (bookings d)"

text \<open>\<open>findMany\<close> with \<open>where: {flightId, isAvailable: true}\<close>,
  \<open>orderBy: {seatNumber: asc}\<close> and \<open>take: n\<close>. It throws \<open>P2020\<close> (value out of
  range) when the flight id is not an INTEGER.\<close>

definition seat_findMany :: "int \<Rightarrow> nat \<Rightarrow> db \<Rightarrow> error + seat list" where
  "seat_findMany fid n d =
     (if \<not> int4 fid then Inl (PrismaClientKnownRequestError ''P2020'')
      else Inr (take n (sort_key seatNumber
             (filter (\<lambda>s. seat_flightId s = fid \<and> isAvailable s) (seats d)))))"

definition seat_findUnique :: "int \<Rightarrow> db \<Rightarrow> seat option" where
  "seat_findUnique i d = find (\<lambda>s. seat_id s = i) (seats d)"

text \<open>\<open>seat.update\<close>: sets the availability flag of the rows the \<open>where\<close> clause
  selects, and throws \<open>P2025\<close> when it selects none.\<close>

definition seat_update :: "(seat \<Rightarrow> bool) \<Rightarrow> bool \<Rightarrow> db \<Rightarrow> error + db" where
  "seat_update wh v d =
     (if \<not> list_ex wh (seats d) then Inl (PrismaClientKnownRequestError ''P2025'')
      else Inr (d\<lparr>seats := map (\<lambda>s. if wh s then s\<lparr>isAvailable := v\<rparr> else s) (seats d)\<rparr>))"

text \<open>\<open>booking.update\<close> with \<open>where: {pnr}\<close> and
  \<open>data: {seatId, checkedIn: true}\<close>: throws \<open>P2025\<close> when no booking has the
  reference, and \<open>P2002\<close> when another booking already holds the seat
  (\<open>bookings_seatId_key\<close>).\<close>

definition booking_update :: "string \<Rightarrow> int \<Rightarrow> db \<Rightarrow> error + db" where
  "booking_update p sid d =
     (if \<not> list_ex (\<lambda>b. pnr b = p) (bookings d)
        then Inl (PrismaClientKnownRequestError ''P2025'')
      else if list_ex (\<lambda>b. pnr b \<noteq> p \<and> seatId b = Some sid) (bookings d)
        then Inl (PrismaClientKnownRequestError ''P2002'')
      else Inr (d\<lparr>bookings :=
             map (\<lambda>b. if pnr b = p then b\<lparr>seatId := Some sid, checkedIn := True\<rparr> else b)
               (bookings d)\<rparr>))"

text \<open>The raw query of the safe method: the available seats of the flight in ascending
  seat number, one row at most, skipping the rows that another transaction in flight has
  locked (\<open>FOR UPDATE SKIP LOCKED\<close>). \<open>locked\<close> lists the ids of those rows.
  It throws \<open>P2010\<close> (raw query failed) when the flight id is not an INTEGER.\<close>

definition select_for_update_skip_locked :: "int list \<Rightarrow> int \<Rightarrow> db \<Rightarrow> error + seat list" where
  "select_for_update_skip_locked locked fid d =
     (if \<not> int4 fid then Inl (PrismaClientKnownRequestError ''P2010'')
      else Inr (take 1 (sort_key seatNumber
             (filter (\<lambda>s. seat_flightId s = fid \<and> isAvailable s \<and> seat_id s \<notin> set locked)
                (seats d)))))"

text \<open>\<open>prisma.$transaction\<close>: the writes of a body that throws are rolled back.\<close>

definition transaction :: "(db \<Rightarrow> (error + 'a) \<times> db) \<Rightarrow> db \<Rightarrow> (error + 'a) \<times> db" where
  "transaction body d =
     (case body d of (Inl e, _) \<Rightarrow> (Inl e, d) | (Inr r, d') \<Rightarrow> (Inr r, d'))"

section \<open>The check-in service\<close>

text \<open>\<open>flightId || booking.flightId\<close>: an absent selector and the falsy number 0 both
  fall back to the flight of the booking.\<close>

definition targetFlightId :: "int option \<Rightarrow> booking \<Rightarrow> int" where
  "targetFlightId fid b =
     (case fid of None \<Rightarrow> flightId b | Some f \<Rightarrow> if f = 0 then flightId b else f)"

subsection \<open>The unsafe method\<close>

text \<open>The body of the loop over the candidates, for one candidate: the outcome is
  \<open>Taken\<close> when the re-read finds the seat gone or unavailable (\<open>continue\<close>),
  \<open>Failed e\<close> when a write throws \<open>e\<close> (caught and logged, then \<open>continue\<close>),
  and \<open>Booked\<close> when both writes went through. Each write is committed on its own:
  the state returned with \<open>Failed\<close> holds the writes made before the throw.
  The random delay has no effect on the store.\<close>

datatype attempt = Taken | Failed error | Booked

definition attempt_seat :: "string \<Rightarrow> seat \<Rightarrow> db \<Rightarrow> attempt \<times> db" where
  "attempt_seat p s d =
     (case seat_findUnique (seat_id s) d of
        None \<Rightarrow> (Taken, d)
      | Some seatCheck \<Rightarrow>
          if \<not> isAvailable seatCheck then (Taken, d)
          else (case seat_update (\<lambda>x. seat_id x = seat_id s \<and> isAvailable x) False d of
                  Inl e \<Rightarrow> (Failed e, d)
                | Inr d1 \<Rightarrow>
                    (case booking_update p (seat_id s) d1 of
                       Inl e \<Rightarrow> (Failed e, d1)
                     | Inr d2 \<Rightarrow> (Booked, d2))))"

text \<open>The loop: \<open>i\<close> is the position of the candidate in \<open>availableSeats\<close>.\<close>

fun try_seats :: "string \<Rightarrow> seat list \<Rightarrow> nat \<Rightarrow> db \<Rightarrow> assign_result option \<times> db" where
  "try_seats p [] i d = (None, d)"
| "try_seats p (s # rest) i d =
     (case attempt_seat p s d of
        (Booked, d') \<Rightarrow>
          (Some \<lparr>success = True, r_seatNumber = seatNumber s, r_seatId = seat_id s,
                 r_method = ''unsafe'', attemptsNeeded = Some (i + 1)\<rparr>, d')
      | (_, d') \<Rightarrow> try_seats p rest (i + 1) d')"

definition selectNextAvailableSeatUnsafe ::
  "db \<Rightarrow> string \<Rightarrow> int option \<Rightarrow> (error + assign_result) \<times> db" where
  "selectNextAvailableSeatUnsafe d p fid =
     (case booking_findUnique p d of
        None \<Rightarrow> (Inl (Error ''Invalid PNR''), d)
      | Some b \<Rightarrow>
          (case seat_findMany (targetFlightId fid b) 5 d of
             Inl e \<Rightarrow> (Inl e, d)
           | Inr availableSeats \<Rightarrow>
               if length availableSeats = 0
                 then (Inl (Error ''No seats available on this flight''), d)
               else (case try_seats p availableSeats 0 d of
                       (Some r, d') \<Rightarrow> (Inr r, d')
                     | (None, d') \<Rightarrow>
                         (Inl (Error
                           ''Unable to assign any seat - all attempts failed due to concurrent access''),
                          d'))))"

subsection \<open>The safe method\<close>

text \<open>The body of the transaction; the state it returns with an error holds the writes
  made before the throw, which \<open>transaction\<close> then discards.\<close>

definition safe_tx :: "int list \<Rightarrow> string \<Rightarrow> int option \<Rightarrow> db \<Rightarrow> (error + assign_result) \<times> db" where
  "safe_tx locked p fid d =
     (case booking_findUnique p d of
        None \<Rightarrow> (Inl (Error ''Invalid PNR''), d)
      | Some b \<Rightarrow>
          (case select_for_update_skip_locked locked (targetFlightId fid b) d of
             Inl e \<Rightarrow> (Inl e, d)
           | Inr [] \<Rightarrow>
               (Inl (Error
                 ''No seats available on this flight or all seats are being processed''), d)
           | Inr (s # _) \<Rightarrow>
               (case seat_update (\<lambda>x. seat_id x = seat_id s) False d of
                  Inl e \<Rightarrow> (Inl e, d)
                | Inr d1 \<Rightarrow>
                    (case booking_update p (seat_id s) d1 of
                       Inl e \<Rightarrow> (Inl e, d1)
                     | Inr d2 \<Rightarrow>
                         (Inr \<lparr>success = True, r_seatNumber = seatNumber s,
                               r_seatId = seat_id s, r_method = ''safe'',
                               attemptsNeeded = None\<rparr>, d2)))))"

definition selectNextAvailableSeatSafe ::
  "int list \<Rightarrow> db \<Rightarrow> string \<Rightarrow> int option \<Rightarrow> (error + assign_result) \<times> db" where
  "selectNextAvailableSeatSafe locked d p fid = transaction (safe_tx locked p fid) d"

subsection \<open>Seat map and administrative reset\<close>

record seat_map =
  sm_flightNumber :: string
  sm_totalSeats :: int
  availableCount :: nat
  sm_seats :: "seat list"

definition getFlightSeatMap :: "string \<Rightarrow> db \<Rightarrow> error + seat_map" where
  "getFlightSeatMap fn d =
     (case find (\<lambda>f. flightNumber f = fn) (flights d) of
        None \<Rightarrow> Inl (Error ''Flight not found'')
      | Some f \<Rightarrow>
          (let ss = sort_key seatNumber (filter (\<lambda>s. seat_flightId s = flight_id f) (seats d))
           in Inr \<lparr>sm_flightNumber = flightNumber f, sm_totalSeats = totalSeats f,
                   availableCount = length (filter isAvailable ss), sm_seats = ss\<rparr>))"

text \<open>The handler of \<open>POST /admin/reset-all-seats\<close>: two \<open>updateMany\<close> without a
  \<open>where\<close> clause and a count, in one transaction.\<close>

definition reset_all_seats_tx :: "db \<Rightarrow> (error + nat) \<times> db" where
  "reset_all_seats_tx d =
     (let d1 = d\<lparr>seats := map (\<lambda>s. s\<lparr>isAvailable := True\<rparr>) (seats d)\<rparr>;
          d2 = d1\<lparr>bookings := map (\<lambda>b. b\<lparr>seatId := None, checkedIn := False\<rparr>) (bookings d1)\<rparr>;
          total = length (seats d2)
      in (Inr total, d2))"

definition reset_all_seats :: "db \<Rightarrow> (error + nat) \<times> db" where
  "reset_all_seats d = transaction reset_all_seats_tx d"

subsection \<open>Calls in sequence\<close>

text \<open>A list of requests (reference, optional flight selector) served by the safe
  method one after the other, each call finished before the next starts, so that no
  row is locked by another transaction. The results are returned in the order of the
  calls.\<close>

fun run_safe :: "db \<Rightarrow> (string \<times> int option) list \<Rightarrow> (error + assign_result) list \<times> db" where
  "run_safe d [] = ([], d)"
| "run_safe d ((p, fid) # reqs) =
     (case selectNextAvailableSeatSafe [] d p fid of
        (res, d') \<Rightarrow> (case run_safe d' reqs of (rs, d'') \<Rightarrow> (res # rs, d'')))"

text \<open>The seat numbers of the successful calls, in the order of the calls.\<close>

fun bound_seatNumbers :: "(error + assign_result) list \<Rightarrow> string list" where
  "bound_seatNumbers [] = []"
| "bound_seatNumbers (Inl e # rs) = bound_seatNumbers rs"
| "bound_seatNumbers (Inr r # rs) = r_seatNumber r # bound_seatNumbers rs"

text \<open>All the available seats of a flight in ascending seat number.\<close>

definition available_seats :: "int \<Rightarrow> db \<Rightarrow> seat list" where
  "available_seats f d =
     sort_key seatNumber (filter (\<lambda>s. seat_flightId s = f \<and> isAvailable s) (seats d))"

text \<open>Every request of the list that names a known booking draws from the flight \<open>f\<close>.\<close>

definition draws_from :: "int \<Rightarrow> db \<Rightarrow> (string \<times> int option) list \<Rightarrow> bool" where
  "draws_from f d reqs =
     list_all (\<lambda>(p, fid). case booking_findUnique p d of
                             None \<Rightarrow> True
                           | Some b \<Rightarrow> targetFlightId fid b = f) reqs"

section \<open>State invariant\<close>

text \<open>The live bindings that reference a seat.\<close>

definition bindings_of :: "int \<Rightarrow> db \<Rightarrow> booking list" where
  "bindings_of sid d = filter (\<lambda>b. seatId b = Some sid) (bookings d)"

text \<open>At most one live binding references a seat, and the seat is unavailable exactly
  when a live binding references it.\<close>

definition state_invariant :: "db \<Rightarrow> bool" where
  "state_invariant d \<longleftrightarrow>
     (\<forall>s \<in> set (seats d).
        length (bindings_of (seat_id s) d) \<le> 1 \<and>
        (\<not> isAvailable s \<longleftrightarrow> bindings_of (seat_id s) d \<noteq> []))"

text \<open>The half of it that survives a second check-in of the same requester: at most one
  live binding references a seat, and a seat that is referenced is unavailable.\<close>

definition binding_invariant :: "db \<Rightarrow> bool" where
  "binding_invariant d \<longleftrightarrow>
     (\<forall>s \<in> set (seats d).
        length (bindings_of (seat_id s) d) \<le> 1 \<and>
        (bindings_of (seat_id s) d \<noteq> [] \<longrightarrow> \<not> isAvailable s))"

section \<open>Sample data\<close>

text \<open>Two flights; six seats on the first, stored out of order, and one on the second;
  three bookings on the first flight, none checked in.\<close>

definition flight_AA123 :: flight where
  "flight_AA123 = \<lparr>flight_id = 1, flightNumber = ''AA123'', totalSeats = 150\<rparr>"

definition flight_BB456 :: flight where
  "flight_BB456 = \<lparr>flight_id = 2, flightNumber = ''BB456'', totalSeats = 1\<rparr>"

definition seat_10A :: seat where
  "seat_10A = \<lparr>seat_id = 1, seat_flightId = 1, seatNumber = ''10A'', isAvailable = True\<rparr>"

definition seat_10B :: seat where
  "seat_10B = \<lparr>seat_id = 2, seat_flightId = 1, seatNumber = ''10B'', isAvailable = True\<rparr>"

definition seat_10C :: seat where
  "seat_10C = \<lparr>seat_id = 3, seat_flightId = 1, seatNumber = ''10C'', isAvailable = True\<rparr>"

definition seat_BB_10A :: seat where
  "seat_BB_10A = \<lparr>seat_id = 4, seat_flightId = 2, seatNumber = ''10A'', isAvailable = True\<rparr>"

definition seat_10D :: seat where
  "seat_10D = \<lparr>seat_id = 5, seat_flightId = 1, seatNumber = ''10D'', isAvailable = True\<rparr>"

definition seat_10E :: seat where
  "seat_10E = \<lparr>seat_id = 6, seat_flightId = 1, seatNumber = ''10E'', isAvailable = True\<rparr>"

definition seat_10F :: seat where
  "seat_10F = \<lparr>seat_id = 7, seat_flightId = 1, seatNumber = ''10F'', isAvailable = True\<rparr>"

definition unbound :: "string \<Rightarrow> booking" where
  "unbound p = \<lparr>pnr = p, flightId = 1, seatId = None, checkedIn = False\<rparr>"

definition holding :: "string \<Rightarrow> int \<Rightarrow> booking" where
  "holding p sid = \<lparr>pnr = p, flightId = 1, seatId = Some sid, checkedIn = True\<rparr>"

definition fresh_db :: db where
  "fresh_db =
     \<lparr>flights = [flight_AA123, flight_BB456],
      seats = [seat_10B, seat_10A, seat_BB_10A, seat_10F, seat_10C, seat_10E, seat_10D],
      bookings = [unbound ''PNR001'', unbound ''PNR002'', unbound ''PNR003'']\<rparr>"

text \<open>A state the schema admits although the invariant fails in it: seat 10A is flagged
  available while the booking PNR002 holds it.\<close>

definition stale_db :: db where
  "stale_db = fresh_db\<lparr>bookings := [unbound ''PNR001'', holding ''PNR002'' 1, unbound ''PNR003'']\<rparr>"

text \<open>The same for the five seats 10A to 10E; 10F is available and nobody holds it.\<close>

definition stale_all_db :: db where
  "stale_all_db =
     fresh_db\<lparr>bookings := [unbound ''PNR001'', holding ''PNR002'' 1, holding ''PNR003'' 2,
                           holding ''PNR004'' 3, holding ''PNR005'' 5, holding ''PNR006'' 6]\<rparr>"

text \<open>The state after PNR001 has checked in with the safe method.\<close>

definition checked_in_db :: db where
  "checked_in_db = snd (selectNextAvailableSeatSafe [] fresh_db ''PNR001'' None)"

text \<open>Three seats on one flight, 10C held by PNR000, and three requesters without a seat.\<close>

definition scenario_db :: db where
  "scenario_db =
     \<lparr>flights = [flight_AA123],
      seats = [seat_10A, seat_10B, seat_10C\<lparr>isAvailable := False\<rparr>],
      bookings = [unbound ''PNR001'', unbound ''PNR002'', unbound ''PNR003'', holding ''PNR000'' 3]\<rparr>"

lemmas sample_defs =
  flight_AA123_def flight_BB456_def seat_10A_def seat_10B_def seat_10C_def seat_BB_10A_def
  seat_10D_def seat_10E_def seat_10F_def unbound_def holding_def fresh_db_def stale_db_def stale_all_db_def
  scenario_db_def

section \<open>Basic facts about the store operations\<close>

lemma transaction_rollback:
  "fst (transaction body d) = Inl e \<Longrightarrow> snd (transaction body d) = d"
  by (auto simp: transaction_def split: prod.splits sum.splits)

lemma transaction_commit:
  "transaction body d = (Inr r, d') \<Longrightarrow> body d = (Inr r, d')"
  by (auto simp: transaction_def split: prod.splits sum.splits)

lemma seat_update_bookings:
  "seat_update wh v d = Inr d1 \<Longrightarrow> bookings d1 = bookings d \<and> flights d1 = flights d"
  by (auto simp: seat_update_def split: if_splits)

lemma booking_update_seats:
  "booking_update p sid d = Inr d2 \<Longrightarrow> seats d2 = seats d \<and> flights d2 = flights d"
  by (auto simp: booking_update_def split: if_splits)

lemma seat_findMany_Inr:
  "seat_findMany f n d = Inr w \<Longrightarrow>
     int4 f \<and> w = take n (sort_key seatNumber
                  (filter (\<lambda>s. seat_flightId s = f \<and> isAvailable s) (seats d)))"
  by (cases "int4 f") (auto simp: seat_findMany_def)

lemma seat_findMany_Inl:
  "seat_findMany f n d = Inl e \<Longrightarrow> \<not> int4 f \<and> e = PrismaClientKnownRequestError ''P2020''"
  by (cases "int4 f") (auto simp: seat_findMany_def)


lemma seat_findMany_set:
  "seat_findMany f n d = Inr w \<Longrightarrow> c \<in> set w \<Longrightarrow>
     c \<in> set (seats d) \<and> seat_flightId c = f \<and> isAvailable c"
  by (auto dest!: seat_findMany_Inr in_set_takeD)


lemma find_map_pnr:
  "(\<And>b. pnr (g b) = pnr b) \<Longrightarrow>
     find (\<lambda>b. pnr b = p) (map g bs) = map_option g (find (\<lambda>b. pnr b = p) bs)"
  by (induction bs) auto

lemma booking_update_find:
  assumes "booking_update p sid d = Inr d'"
  shows "booking_findUnique p d' =
           map_option (\<lambda>b. b\<lparr>seatId := Some sid, checkedIn := True\<rparr>) (booking_findUnique p d)"
proof -
  let ?g = "\<lambda>b. if pnr b = p then b\<lparr>seatId := Some sid, checkedIn := True\<rparr> else b"
  have d': "bookings d' = map ?g (bookings d)"
    using assms by (auto simp: booking_update_def split: if_splits)
  have "find (\<lambda>b. pnr b = p) (map ?g (bookings d)) =
          map_option ?g (find (\<lambda>b. pnr b = p) (bookings d))"
    by (rule find_map_pnr) simp
  moreover have "map_option ?g (find (\<lambda>b. pnr b = p) (bookings d)) =
      map_option (\<lambda>b. b\<lparr>seatId := Some sid, checkedIn := True\<rparr>)
        (find (\<lambda>b. pnr b = p) (bookings d))"
    by (cases "find (\<lambda>b. pnr b = p) (bookings d)") (auto dest: find_Some_iff[THEN iffD1])
  ultimately show ?thesis by (simp add: booking_findUnique_def d')
qed


section \<open>Facts about the loop of the unsafe method\<close>

lemma attempt_seat_not_Booked_bookings:
  "fst (attempt_seat p s d) \<noteq> Booked \<Longrightarrow> bookings (snd (attempt_seat p s d)) = bookings d"
  by (auto simp: attempt_seat_def split: option.splits if_splits sum.splits
           dest: seat_update_bookings)

lemma attempt_seat_Booked:
  "attempt_seat p s d = (Booked, d') \<Longrightarrow>
     \<exists>d1. seat_update (\<lambda>x. seat_id x = seat_id s \<and> isAvailable x) False d = Inr d1 \<and>
          booking_update p (seat_id s) d1 = Inr d'"
  by (auto simp: attempt_seat_def split: option.splits if_splits sum.splits)

lemma try_seats_advance:
  "fst (attempt_seat p s d) \<noteq> Booked \<Longrightarrow>
     try_seats p (s # rest) i d = try_seats p rest (i + 1) (snd (attempt_seat p s d))"
  by (cases "attempt_seat p s d") (auto split: attempt.splits)

lemma try_seats_Some:
  "try_seats p cs i d = (Some r, d') \<Longrightarrow>
     \<exists>c \<in> set cs. \<exists>d0 d1. r_seatId r = seat_id c \<and> r_seatNumber r = seatNumber c \<and>
        bookings d0 = bookings d \<and>
        seat_update (\<lambda>x. seat_id x = seat_id c \<and> isAvailable x) False d0 = Inr d1 \<and>
        booking_update p (seat_id c) d1 = Inr d'"
proof (induction cs arbitrary: i d)
  case Nil
  then show ?case by simp
next
  case (Cons s rest)
  show ?case
  proof (cases "fst (attempt_seat p s d) = Booked")
    case True
    then obtain d2 where a: "attempt_seat p s d = (Booked, d2)"
      by (cases "attempt_seat p s d") auto
    with Cons.prems have r: "r_seatId r = seat_id s" "r_seatNumber r = seatNumber s" "d' = d2"
      by auto
    from attempt_seat_Booked[OF a] r show ?thesis by auto
  next
    case False
    from Cons.prems try_seats_advance[OF False]
    have "try_seats p rest (i + 1) (snd (attempt_seat p s d)) = (Some r, d')" by simp
    from Cons.IH[OF this] attempt_seat_not_Booked_bookings[OF False]
    show ?thesis by auto
  qed
qed

section \<open>Administrative reset\<close>

lemma reset_all_seats_eq:
  "reset_all_seats d =
     (Inr (length (seats d)),
      d\<lparr>seats := map (\<lambda>s. s\<lparr>isAvailable := True\<rparr>) (seats d),
        bookings := map (\<lambda>b. b\<lparr>seatId := None, checkedIn := False\<rparr>) (bookings d)\<rparr>)"
  by (simp add: reset_all_seats_def reset_all_seats_tx_def transaction_def Let_def)

lemma seat_map_after_reset:
  "getFlightSeatMap fn (snd (reset_all_seats d)) = Inr m \<Longrightarrow> availableCount m = length (sm_seats m)"
  by (auto simp: reset_all_seats_eq getFlightSeatMap_def Let_def filter_sort filter_map comp_def
           split: option.splits)

text \<open>
  Claim C7. After the reset of all seats, which runs as one transaction and cannot fail,
  every seat is available and every booking has no seat and is not checked in. The number
  of available seats is then the number of seats: over the whole table (the count the
  handler returns) and in the seat map of every flight, where \<open>availableCount\<close> equals
  the number of seats listed. (The stored column \<open>totalSeats\<close> of a flight plays no part.)
\<close>

theorem reset_all_seats_restores:
  "(\<forall>s \<in> set (seats (snd (reset_all_seats d))). isAvailable s) \<and>
   (\<forall>b \<in> set (bookings (snd (reset_all_seats d))). seatId b = None \<and> \<not> checkedIn b) \<and>
   length (filter isAvailable (seats (snd (reset_all_seats d)))) =
     length (seats (snd (reset_all_seats d))) \<and>
   length (seats (snd (reset_all_seats d))) = length (seats d) \<and>
   fst (reset_all_seats d) = Inr (length (seats d)) \<and>
   (\<forall>fn m. getFlightSeatMap fn (snd (reset_all_seats d)) = Inr m \<longrightarrow>
       availableCount m = length (sm_seats m))"
proof -
  have "\<forall>fn m. getFlightSeatMap fn (snd (reset_all_seats d)) = Inr m \<longrightarrow>
       availableCount m = length (sm_seats m)"
    using seat_map_after_reset by blast
  moreover have "length (filter isAvailable (seats (snd (reset_all_seats d)))) =
     length (seats (snd (reset_all_seats d)))"
    by (simp add: reset_all_seats_eq filter_map comp_def)
  ultimately show ?thesis by (simp add: reset_all_seats_eq)
qed

theorem reset_all_seats_restores_witness:
  "seat_10A \<in> set (seats (snd (reset_all_seats stale_all_db))) \<and> isAvailable seat_10A \<and>
   unbound ''PNR002'' \<in> set (bookings (snd (reset_all_seats stale_all_db))) \<and>
   seatId (unbound ''PNR002'') = None \<and> \<not> checkedIn (unbound ''PNR002'') \<and>
   getFlightSeatMap ''AA123'' (snd (reset_all_seats stale_all_db)) =
     Inr \<lparr>sm_flightNumber = ''AA123'', sm_totalSeats = 150, availableCount = 6,
          sm_seats = [seat_10A, seat_10B, seat_10C, seat_10D, seat_10E, seat_10F]\<rparr> \<and>
   availableCount \<lparr>sm_flightNumber = ''AA123'', sm_totalSeats = 150, availableCount = 6,
          sm_seats = [seat_10A, seat_10B, seat_10C, seat_10D, seat_10E, seat_10F]\<rparr> =
     length [seat_10A, seat_10B, seat_10C, seat_10D, seat_10E, seat_10F]"
proof -
  have m: "getFlightSeatMap ''AA123'' (snd (reset_all_seats stale_all_db)) =
     Inr \<lparr>sm_flightNumber = ''AA123'', sm_totalSeats = 150, availableCount = 6,
          sm_seats = [seat_10A, seat_10B, seat_10C, seat_10D, seat_10E, seat_10F]\<rparr>"
    by code_simp
  have s: "seat_10A \<in> set (seats (snd (reset_all_seats stale_all_db)))"
    by (simp add: reset_all_seats_eq sample_defs)
  have b: "unbound ''PNR002'' \<in> set (bookings (snd (reset_all_seats stale_all_db)))"
    by (simp add: reset_all_seats_eq sample_defs)
  from reset_all_seats_restores[of stale_all_db] m s b show ?thesis
    by (simp add: sample_defs)
qed

section \<open>Failure of the safe method\<close>

text \<open>
  Claim C3. When the safe method fails, whatever the error (unknown requester, no seat to
  lock, or a write that throws in the middle of the transaction), the store is the one it
  started from: every availability flag and every booking, the requester's included, is
  unchanged. The first example is a failure in the middle: the seat was already marked
  unavailable inside the transaction when the binding write was rejected. The other two
  are an unknown reference and a flight whose available seats are all locked.
\<close>

theorem safe_failure_rolls_back:
  "fst (selectNextAvailableSeatSafe locked d p fid) = Inl e \<Longrightarrow>
     snd (selectNextAvailableSeatSafe locked d p fid) = d"
  unfolding selectNextAvailableSeatSafe_def by (rule transaction_rollback)

theorem safe_failure_rolls_back_witness:
  "fst (selectNextAvailableSeatSafe [] stale_db ''PNR001'' None) =
     Inl (PrismaClientKnownRequestError ''P2002'') \<and>
   seat_findUnique 1 stale_db = Some seat_10A \<and>
   seat_findUnique 1 (snd (safe_tx [] ''PNR001'' None stale_db)) =
     Some (seat_10A\<lparr>isAvailable := False\<rparr>) \<and>
   snd (selectNextAvailableSeatSafe [] stale_db ''PNR001'' None) = stale_db \<and>
   fst (selectNextAvailableSeatSafe [] fresh_db ''PNR404'' None) = Inl (Error ''Invalid PNR'') \<and>
   snd (selectNextAvailableSeatSafe [] fresh_db ''PNR404'' None) = fresh_db \<and>
   fst (selectNextAvailableSeatSafe [1, 2, 3, 5, 6, 7] fresh_db ''PNR001'' None) =
     Inl (Error ''No seats available on this flight or all seats are being processed'') \<and>
   snd (selectNextAvailableSeatSafe [1, 2, 3, 5, 6, 7] fresh_db ''PNR001'' None) = fresh_db"
proof -
  have h: "fst (selectNextAvailableSeatSafe [] stale_db ''PNR001'' None) =
     Inl (PrismaClientKnownRequestError ''P2002'')"
    and u: "fst (selectNextAvailableSeatSafe [] fresh_db ''PNR404'' None) =
     Inl (Error ''Invalid PNR'')"
    and n: "fst (selectNextAvailableSeatSafe [1, 2, 3, 5, 6, 7] fresh_db ''PNR001'' None) =
     Inl (Error ''No seats available on this flight or all seats are being processed'')"
    by code_simp+
  have a: "seat_findUnique 1 stale_db = Some seat_10A"
    and b: "seat_findUnique 1 (snd (safe_tx [] ''PNR001'' None stale_db)) =
     Some (seat_10A\<lparr>isAvailable := False\<rparr>)"
    by code_simp+
  from h a b safe_failure_rolls_back[OF h] u safe_failure_rolls_back[OF u]
    n safe_failure_rolls_back[OF n]
  show ?thesis by (intro conjI)
qed

section \<open>What a successful call has done\<close>




lemma unsafe_result:
  assumes "booking_findUnique p d = Some b" "seat_findMany (targetFlightId fid b) 5 d = Inr w"
    "w \<noteq> []"
  shows "selectNextAvailableSeatUnsafe d p fid =
    (case try_seats p w 0 d of
       (Some r, d') \<Rightarrow> (Inr r, d')
     | (None, d') \<Rightarrow>
         (Inl (Error ''Unable to assign any seat - all attempts failed due to concurrent access''),
          d'))"
  using assms by (simp add: selectNextAvailableSeatUnsafe_def)

lemma unsafe_success:
  assumes "selectNextAvailableSeatUnsafe d p fid = (Inr r, d')"
  shows "\<exists>b w c d0 d1. booking_findUnique p d = Some b \<and>
           seat_findMany (targetFlightId fid b) 5 d = Inr w \<and> c \<in> set w \<and>
           r_seatId r = seat_id c \<and> r_seatNumber r = seatNumber c \<and>
           bookings d0 = bookings d \<and>
           seat_update (\<lambda>x. seat_id x = seat_id c \<and> isAvailable x) False d0 = Inr d1 \<and>
           booking_update p (seat_id c) d1 = Inr d'"
proof -
  from assms obtain b where b: "booking_findUnique p d = Some b"
    by (cases "booking_findUnique p d") (auto simp: selectNextAvailableSeatUnsafe_def)
  from assms b obtain w where w: "seat_findMany (targetFlightId fid b) 5 d = Inr w"
    by (cases "seat_findMany (targetFlightId fid b) 5 d")
       (auto simp: selectNextAvailableSeatUnsafe_def)
  from assms b w have ne: "w \<noteq> []"
    by (cases w) (auto simp: selectNextAvailableSeatUnsafe_def)
  from assms have "try_seats p w 0 d = (Some r, d')"
    unfolding unsafe_result[OF b w ne]
    by (cases "try_seats p w 0 d") (auto split: option.splits)
  from try_seats_Some[OF this] b w show ?thesis by blast
qed

lemma safe_success:
  assumes "selectNextAvailableSeatSafe l d p fid = (Inr r, d')"
  shows "\<exists>b w c d1. booking_findUnique p d = Some b \<and>
           select_for_update_skip_locked l (targetFlightId fid b) d = Inr (c # w) \<and>
           r_seatId r = seat_id c \<and> r_seatNumber r = seatNumber c \<and>
           seat_update (\<lambda>x. seat_id x = seat_id c) False d = Inr d1 \<and>
           booking_update p (seat_id c) d1 = Inr d'"
proof -
  from assms have "safe_tx l p fid d = (Inr r, d')"
    unfolding selectNextAvailableSeatSafe_def by (rule transaction_commit)
  then show ?thesis
    by (auto simp: safe_tx_def split: option.splits list.splits sum.splits)
qed

lemma booking_after_update:
  assumes "booking_findUnique p d = Some b" "bookings d1 = bookings d"
    "booking_update p sid d1 = Inr d'"
  shows "booking_findUnique p d' = Some (b\<lparr>seatId := Some sid, checkedIn := True\<rparr>)"
proof -
  have "booking_findUnique p d1 = Some b"
    using assms(1,2) by (simp add: booking_findUnique_def)
  with booking_update_find[OF assms(3)] show ?thesis by simp
qed

section \<open>The candidate window and the failures of the unsafe method\<close>

lemma seat_findMany_length: "seat_findMany f n d = Inr w \<Longrightarrow> length w \<le> n"
  by (auto dest!: seat_findMany_Inr)

lemma seat_findMany_sorted: "seat_findMany f n d = Inr w \<Longrightarrow> sorted (map seatNumber w)"
  by (auto dest!: seat_findMany_Inr simp: take_map[symmetric])

lemma seat_findMany_least:
  assumes w: "seat_findMany f n d = Inr w" and c: "c \<in> set w"
    and s: "s \<in> set (seats d)" "seat_flightId s = f" "isAvailable s" "s \<notin> set w"
  shows "seatNumber c \<le> seatNumber s"
proof -
  let ?ys = "sort_key seatNumber (filter (\<lambda>s. seat_flightId s = f \<and> isAvailable s) (seats d))"
  from seat_findMany_Inr[OF w] have w': "w = take n ?ys" by simp
  have "s \<in> set ?ys" using s by simp
  then have "s \<in> set (take n ?ys) \<union> set (drop n ?ys)"
    by (metis append_take_drop_id set_append)
  with s(4) have sd: "s \<in> set (drop n ?ys)" by (simp add: w')
  have "sorted (map seatNumber (take n ?ys @ drop n ?ys))" by simp
  then have "\<forall>x \<in> set (take n ?ys). \<forall>y \<in> set (drop n ?ys). seatNumber x \<le> seatNumber y"
    unfolding map_append sorted_append by auto
  with c sd show ?thesis by (simp add: w')
qed

lemma seat_findMany_returns: "int4 f \<Longrightarrow> \<exists>w. seat_findMany f n d = Inr w"
  by (simp add: seat_findMany_def)

lemma unsafe_no_seats:
  "booking_findUnique p d = Some b \<Longrightarrow> seat_findMany (targetFlightId fid b) 5 d = Inr [] \<Longrightarrow>
     selectNextAvailableSeatUnsafe d p fid = (Inl (Error ''No seats available on this flight''), d)"
  by (simp add: selectNextAvailableSeatUnsafe_def)

lemma unsafe_out_of_range:
  "booking_findUnique p d = Some b \<Longrightarrow> seat_findMany (targetFlightId fid b) 5 d = Inl e \<Longrightarrow>
     selectNextAvailableSeatUnsafe d p fid = (Inl e, d)"
  by (simp add: selectNextAvailableSeatUnsafe_def)

lemma unsafe_all_failed:
  "booking_findUnique p d = Some b \<Longrightarrow> seat_findMany (targetFlightId fid b) 5 d = Inr w \<Longrightarrow>
   w \<noteq> [] \<Longrightarrow> fst (try_seats p w 0 d) = None \<Longrightarrow>
     fst (selectNextAvailableSeatUnsafe d p fid) =
       Inl (Error ''Unable to assign any seat - all attempts failed due to concurrent access'')"
  by (cases "try_seats p w 0 d") (simp add: unsafe_result)

text \<open>
  Claim C5. The unsafe method reads at most five candidates: available seats of the target
  flight, in ascending seat number, and no available seat of the flight outside the window
  comes before one inside; the query returns such a window for every flight id that is an
  INTEGER. With no candidate it fails with the message
  \<open>No seats available on this flight\<close> and changes nothing. When no candidate of a
  non-empty window gets booked it fails with the message \<open>Unable to assign any seat - all
  attempts failed due to concurrent access\<close>, which is a different error. A candidate
  that is not booked only makes the loop go on with the next one.
\<close>

theorem unsafe_candidates_and_failures:
  "(seat_findMany f 5 d = Inr w \<longrightarrow>
      length w \<le> 5 \<and>
      sorted (map seatNumber w) \<and>
      (\<forall>c \<in> set w.
         c \<in> set (seats d) \<and> seat_flightId c = f \<and> isAvailable c \<and>
         (\<forall>s \<in> set (seats d). seat_flightId s = f \<and> isAvailable s \<and>
             s \<notin> set w \<longrightarrow> seatNumber c \<le> seatNumber s))) \<and>
   (int4 f \<longrightarrow> (\<exists>w. seat_findMany f 5 d = Inr w)) \<and>
   (booking_findUnique p d = Some b \<and> seat_findMany (targetFlightId fid b) 5 d = Inr [] \<longrightarrow>
      selectNextAvailableSeatUnsafe d p fid =
        (Inl (Error ''No seats available on this flight''), d)) \<and>
   (booking_findUnique p d = Some b \<and> seat_findMany (targetFlightId fid b) 5 d = Inr cs \<and>
    cs \<noteq> [] \<and> fst (try_seats p cs 0 d) = None \<longrightarrow>
      fst (selectNextAvailableSeatUnsafe d p fid) =
        Inl (Error ''Unable to assign any seat - all attempts failed due to concurrent access'')) \<and>
   (fst (attempt_seat p s0 d) \<noteq> Booked \<longrightarrow>
      try_seats p (s0 # rest) i d = try_seats p rest (i + 1) (snd (attempt_seat p s0 d))) \<and>
   Error ''Unable to assign any seat - all attempts failed due to concurrent access'' \<noteq>
     Error ''No seats available on this flight''"
proof -
  have 1: "seat_findMany f 5 d = Inr w \<longrightarrow>
      length w \<le> 5 \<and>
      sorted (map seatNumber w) \<and>
      (\<forall>c \<in> set w.
         c \<in> set (seats d) \<and> seat_flightId c = f \<and> isAvailable c \<and>
         (\<forall>s \<in> set (seats d). seat_flightId s = f \<and> isAvailable s \<and>
             s \<notin> set w \<longrightarrow> seatNumber c \<le> seatNumber s))"
    using seat_findMany_length[of f 5 d w] seat_findMany_sorted[of f 5 d w]
      seat_findMany_set[of f 5 d w] seat_findMany_least[of f 5 d w]
    by blast
  have 2: "int4 f \<longrightarrow> (\<exists>w. seat_findMany f 5 d = Inr w)"
    using seat_findMany_returns[of f 5 d] by blast
  have 3: "booking_findUnique p d = Some b \<and> seat_findMany (targetFlightId fid b) 5 d = Inr [] \<longrightarrow>
      selectNextAvailableSeatUnsafe d p fid =
        (Inl (Error ''No seats available on this flight''), d)"
    using unsafe_no_seats[of p d b fid] by blast
  have 4: "booking_findUnique p d = Some b \<and> seat_findMany (targetFlightId fid b) 5 d = Inr cs \<and>
    cs \<noteq> [] \<and> fst (try_seats p cs 0 d) = None \<longrightarrow>
      fst (selectNextAvailableSeatUnsafe d p fid) =
        Inl (Error ''Unable to assign any seat - all attempts failed due to concurrent access'')"
    using unsafe_all_failed[of p d b fid cs] by blast
  have 5: "fst (attempt_seat p s0 d) \<noteq> Booked \<longrightarrow>
      try_seats p (s0 # rest) i d = try_seats p rest (i + 1) (snd (attempt_seat p s0 d))"
    using try_seats_advance[of p s0 d rest i] by blast
  have 6: "Error ''Unable to assign any seat - all attempts failed due to concurrent access'' \<noteq>
     Error ''No seats available on this flight''" by simp
  from 1 2 3 4 5 6 show ?thesis by (intro conjI)
qed

theorem unsafe_candidates_and_failures_witness:
  "seat_findMany 1 5 fresh_db = Inr [seat_10A, seat_10B, seat_10C, seat_10D, seat_10E] \<and>
   seat_10A \<in> set [seat_10A, seat_10B, seat_10C, seat_10D, seat_10E] \<and>
   seat_10F \<in> set (seats fresh_db) \<and> seat_flightId seat_10F = 1 \<and> isAvailable seat_10F \<and>
   seat_10F \<notin> set [seat_10A, seat_10B, seat_10C, seat_10D, seat_10E] \<and>
   seatNumber seat_10A \<le> seatNumber seat_10F \<and>
   int4 1 \<and>
   booking_findUnique ''PNR001'' fresh_db = Some (unbound ''PNR001'') \<and>
   seat_findMany (targetFlightId (Some 3) (unbound ''PNR001'')) 5 fresh_db = Inr [] \<and>
   selectNextAvailableSeatUnsafe fresh_db ''PNR001'' (Some 3) =
     (Inl (Error ''No seats available on this flight''), fresh_db) \<and>
   booking_findUnique ''PNR001'' stale_all_db = Some (unbound ''PNR001'') \<and>
   seat_findMany (targetFlightId None (unbound ''PNR001'')) 5 stale_all_db =
     Inr [seat_10A, seat_10B, seat_10C, seat_10D, seat_10E] \<and>
   fst (try_seats ''PNR001'' [seat_10A, seat_10B, seat_10C, seat_10D, seat_10E] 0 stale_all_db) =
     None \<and>
   fst (selectNextAvailableSeatUnsafe stale_all_db ''PNR001'' None) =
     Inl (Error ''Unable to assign any seat - all attempts failed due to concurrent access'') \<and>
   fst (attempt_seat ''PNR001'' seat_10A stale_all_db) \<noteq> Booked \<and>
   try_seats ''PNR001'' [seat_10A, seat_10B] 0 stale_all_db =
     try_seats ''PNR001'' [seat_10B] (0 + 1) (snd (attempt_seat ''PNR001'' seat_10A stale_all_db))"
proof -
  let ?w = "[seat_10A, seat_10B, seat_10C, seat_10D, seat_10E]"
  have q: "seat_findMany 1 5 fresh_db = Inr ?w" by code_simp
  have w: "seat_10A \<in> set ?w"
    "seat_10F \<in> set (seats fresh_db)" "seat_flightId seat_10F = 1" "isAvailable seat_10F"
    "seat_10F \<notin> set ?w" "int4 1"
    by code_simp+
  have e: "booking_findUnique ''PNR001'' fresh_db = Some (unbound ''PNR001'')"
    "seat_findMany (targetFlightId (Some 3) (unbound ''PNR001'')) 5 fresh_db = Inr []"
    by code_simp+
  have a: "booking_findUnique ''PNR001'' stale_all_db = Some (unbound ''PNR001'')"
    "seat_findMany (targetFlightId None (unbound ''PNR001'')) 5 stale_all_db = Inr ?w"
    "fst (try_seats ''PNR001'' ?w 0 stale_all_db) = None"
    "fst (attempt_seat ''PNR001'' seat_10A stale_all_db) \<noteq> Booked"
    by code_simp+
  have ne: "?w \<noteq> []" by simp
  from unsafe_candidates_and_failures[where f = 1 and d = fresh_db and p = "''PNR001''"
      and b = "unbound ''PNR001''" and fid = "Some 3" and w = ?w] q w e
  have 1: "seatNumber seat_10A \<le> seatNumber seat_10F"
    "selectNextAvailableSeatUnsafe fresh_db ''PNR001'' (Some 3) =
     (Inl (Error ''No seats available on this flight''), fresh_db)"
    by blast+
  from unsafe_candidates_and_failures[where d = stale_all_db and p = "''PNR001''"
      and b = "unbound ''PNR001''" and fid = None and cs = ?w and ?s0.0 = seat_10A
      and rest = "[seat_10B]" and i = 0] a ne
  have 2: "fst (selectNextAvailableSeatUnsafe stale_all_db ''PNR001'' None) =
     Inl (Error ''Unable to assign any seat - all attempts failed due to concurrent access'')"
    "try_seats ''PNR001'' [seat_10A, seat_10B] 0 stale_all_db =
     try_seats ''PNR001'' [seat_10B] (0 + 1) (snd (attempt_seat ''PNR001'' seat_10A stale_all_db))"
    by blast+
  from q w(1-5) 1(1) w(6) e 1(2) a(1-3) 2(1) a(4) 2(2) show ?thesis by (intro conjI)
qed

section \<open>Storage errors in the unsafe method\<close>

lemma attempt_seat_binding_rejected:
  assumes "seat_findUnique (seat_id s) d = Some c" "isAvailable c"
    "seat_update (\<lambda>x. seat_id x = seat_id s \<and> isAvailable x) False d = Inr d1"
    "booking_update p (seat_id s) d1 = Inl e"
  shows "attempt_seat p s d = (Failed e, d1)"
  using assms by (simp add: attempt_seat_def)

lemma seat_update_seats:
  "seat_update wh v d = Inr d1 \<Longrightarrow>
     seats d1 = map (\<lambda>s. if wh s then s\<lparr>isAvailable := v\<rparr> else s) (seats d)"
  by (cases "list_ex wh (seats d)") (auto simp: seat_update_def)

lemma seat_update_flips:
  assumes "seat_update (\<lambda>x. seat_id x = sid \<and> isAvailable x) False d = Inr d1"
    "x \<in> set (seats d1)" "seat_id x = sid"
  shows "\<not> isAvailable x"
proof -
  from assms(2) obtain y where "y \<in> set (seats d)"
    "x = (if seat_id y = sid \<and> isAvailable y then y\<lparr>isAvailable := False\<rparr> else y)"
    unfolding seat_update_seats[OF assms(1)] by auto
  with assms(3) show ?thesis by (cases "isAvailable y") (auto split: if_splits)
qed

lemma unsafe_success_bound:
  assumes "selectNextAvailableSeatUnsafe d p fid = (Inr r, d')"
  shows "\<exists>b'. booking_findUnique p d' = Some b' \<and> seatId b' = Some (r_seatId r) \<and> checkedIn b'"
proof -
  from unsafe_success[OF assms] obtain b d0 d1 and c :: seat where
    b: "booking_findUnique p d = Some b" and c: "r_seatId r = seat_id c"
    and w: "bookings d0 = bookings d"
      "seat_update (\<lambda>x. seat_id x = seat_id c \<and> isAvailable x) False d0 = Inr d1"
      "booking_update p (seat_id c) d1 = Inr d'"
    by blast
  have "bookings d1 = bookings d" using seat_update_bookings[OF w(2)] w(1) by simp
  from booking_after_update[OF b this w(3)] c show ?thesis by simp
qed

lemma try_seats_append:
  "try_seats p (pre @ xs) i d =
     (case try_seats p pre i d of
        (Some r, d') \<Rightarrow> (Some r, d')
      | (None, d') \<Rightarrow> try_seats p xs (i + length pre) d')"
proof (induction pre arbitrary: i d)
  case Nil
  then show ?case by simp
next
  case (Cons a pre)
  show ?case
  proof (cases "fst (attempt_seat p a d) = Booked")
    case True
    then obtain d2 where "attempt_seat p a d = (Booked, d2)"
      by (cases "attempt_seat p a d") auto
    then show ?thesis by simp
  next
    case False
    let ?d = "snd (attempt_seat p a d)"
    have a1: "try_seats p (a # pre) i d = try_seats p pre (i + 1) ?d"
      using False by (rule try_seats_advance)
    have a2: "try_seats p ((a # pre) @ xs) i d = try_seats p (pre @ xs) (i + 1) ?d"
      unfolding append_Cons using False by (rule try_seats_advance)
    have a3: "i + 1 + length pre = i + length (a # pre)" by simp
    show ?thesis unfolding a2 a1 Cons.IH a3 by (rule refl)
  qed
qed

lemma unsafe_after_rejection:
  assumes b: "booking_findUnique p d0 = Some b"
    and w: "seat_findMany (targetFlightId fid b) 5 d0 = Inr (pre @ s # rest)"
    and pre: "try_seats p pre 0 d0 = (None, d)"
    and rej: "fst (attempt_seat p s d) \<noteq> Booked"
  shows "selectNextAvailableSeatUnsafe d0 p fid =
    (case try_seats p rest (length pre + 1) (snd (attempt_seat p s d)) of
       (Some r, d') \<Rightarrow> (Inr r, d')
     | (None, d') \<Rightarrow>
         (Inl (Error ''Unable to assign any seat - all attempts failed due to concurrent access''),
          d'))"
proof -
  have "try_seats p (pre @ s # rest) 0 d0 = try_seats p (s # rest) (length pre) d"
    by (simp add: try_seats_append pre)
  also have "\<dots> = try_seats p rest (length pre + 1) (snd (attempt_seat p s d))"
    using rej by (rule try_seats_advance)
  finally show ?thesis
    using unsafe_result[OF b w] by simp
qed

lemma unsafe_after_rejection_cases:
  assumes b: "booking_findUnique p d0 = Some b"
    and w: "seat_findMany (targetFlightId fid b) 5 d0 = Inr (pre @ s # rest)"
    and pre: "try_seats p pre 0 d0 = (None, d)"
    and rej: "fst (attempt_seat p s d) \<noteq> Booked"
  shows "fst (selectNextAvailableSeatUnsafe d0 p fid) =
           Inl (Error ''Unable to assign any seat - all attempts failed due to concurrent access'') \<or>
         (\<exists>r c. fst (selectNextAvailableSeatUnsafe d0 p fid) = Inr r \<and> c \<in> set rest \<and>
            r_seatId r = seat_id c \<and> r_seatNumber r = seatNumber c)"
proof (cases "fst (try_seats p rest (length pre + 1) (snd (attempt_seat p s d)))")
  case None
  then obtain d' where t: "try_seats p rest (length pre + 1) (snd (attempt_seat p s d)) = (None, d')"
    by (cases "try_seats p rest (length pre + 1) (snd (attempt_seat p s d))") simp
  show ?thesis unfolding unsafe_after_rejection[OF assms] t by simp
next
  case (Some r)
  then obtain d' where t: "try_seats p rest (length pre + 1) (snd (attempt_seat p s d)) = (Some r, d')"
    by (cases "try_seats p rest (length pre + 1) (snd (attempt_seat p s d))") simp
  from try_seats_Some[OF t] obtain c where "c \<in> set rest" "r_seatId r = seat_id c"
    "r_seatNumber r = seatNumber c" by blast
  moreover have "fst (selectNextAvailableSeatUnsafe d0 p fid) = Inr r"
    unfolding unsafe_after_rejection[OF assms] t by simp
  ultimately show ?thesis by blast
qed

lemma unsafe_write_errors_caught:
  "fst (selectNextAvailableSeatUnsafe d p fid) \<noteq> Inl (PrismaClientKnownRequestError ''P2002'') \<and>
   fst (selectNextAvailableSeatUnsafe d p fid) \<noteq> Inl (PrismaClientKnownRequestError ''P2025'')"
proof (cases "booking_findUnique p d")
  case None
  then show ?thesis by (simp add: selectNextAvailableSeatUnsafe_def)
next
  case (Some b)
  show ?thesis
  proof (cases "seat_findMany (targetFlightId fid b) 5 d")
    case (Inl e)
    from seat_findMany_Inl[OF this] unsafe_out_of_range[OF Some Inl] show ?thesis by simp
  next
    case (Inr w)
    show ?thesis
    proof (cases "w = []")
      case True
      with unsafe_no_seats[OF Some] Inr show ?thesis by simp
    next
      case False
      show ?thesis
        unfolding unsafe_result[OF Some Inr False]
        by (cases "try_seats p w 0 d") (auto split: option.splits)
    qed
  qed
qed

text \<open>
  Claim C4, as amended. When the uniqueness constraint rejects the binding write for a
  candidate, the unsafe method catches the error and goes on with the next candidate: the
  call ends as the loop over the remaining candidates ends, with a success on a later
  candidate or with the plain error of the exhausted loop. The rejection (\<open>P2002\<close>, and
  likewise \<open>P2025\<close> of a write) never reaches the caller, and a success is reported only
  for a seat whose binding write went through. An error of the query that reads the
  candidates, which runs before the loop, is not caught: it reaches the caller as it is.
\<close>

theorem unsafe_catches_rejected_binding:
  "(seat_findUnique (seat_id s) d = Some c \<and> isAvailable c \<and>
    seat_update (\<lambda>x. seat_id x = seat_id s \<and> isAvailable x) False d = Inr d1 \<and>
    booking_update p (seat_id s) d1 = Inl (PrismaClientKnownRequestError ''P2002'') \<longrightarrow>
      attempt_seat p s d = (Failed (PrismaClientKnownRequestError ''P2002''), d1) \<and>
      try_seats p (s # rest) i d = try_seats p rest (i + 1) d1) \<and>
   (booking_findUnique p d0 = Some b \<and>
    seat_findMany (targetFlightId fid b) 5 d0 = Inr (pre @ s # rest) \<and>
    try_seats p pre 0 d0 = (None, d) \<and>
    fst (attempt_seat p s d) = Failed (PrismaClientKnownRequestError ''P2002'') \<longrightarrow>
      selectNextAvailableSeatUnsafe d0 p fid =
        (case try_seats p rest (length pre + 1) (snd (attempt_seat p s d)) of
           (Some r, d') \<Rightarrow> (Inr r, d')
         | (None, d') \<Rightarrow>
             (Inl (Error
               ''Unable to assign any seat - all attempts failed due to concurrent access''),
              d')) \<and>
      (fst (selectNextAvailableSeatUnsafe d0 p fid) =
         Inl (Error ''Unable to assign any seat - all attempts failed due to concurrent access'') \<or>
       (\<exists>r c. fst (selectNextAvailableSeatUnsafe d0 p fid) = Inr r \<and> c \<in> set rest \<and>
          r_seatId r = seat_id c \<and> r_seatNumber r = seatNumber c))) \<and>
   fst (selectNextAvailableSeatUnsafe d0 p fid) \<noteq> Inl (PrismaClientKnownRequestError ''P2002'') \<and>
   fst (selectNextAvailableSeatUnsafe d0 p fid) \<noteq> Inl (PrismaClientKnownRequestError ''P2025'') \<and>
   (selectNextAvailableSeatUnsafe d0 p fid = (Inr r0, d0') \<longrightarrow>
      (\<exists>b'. booking_findUnique p d0' = Some b' \<and> seatId b' = Some (r_seatId r0) \<and>
         checkedIn b')) \<and>
   (booking_findUnique p d0 = Some b \<and> seat_findMany (targetFlightId fid b) 5 d0 = Inl e \<longrightarrow>
      selectNextAvailableSeatUnsafe d0 p fid = (Inl e, d0))"
proof -
  have 1: "seat_findUnique (seat_id s) d = Some c \<and> isAvailable c \<and>
    seat_update (\<lambda>x. seat_id x = seat_id s \<and> isAvailable x) False d = Inr d1 \<and>
    booking_update p (seat_id s) d1 = Inl (PrismaClientKnownRequestError ''P2002'') \<longrightarrow>
      attempt_seat p s d = (Failed (PrismaClientKnownRequestError ''P2002''), d1) \<and>
      try_seats p (s # rest) i d = try_seats p rest (i + 1) d1"
  proof (intro impI, elim conjE)
    assume h: "seat_findUnique (seat_id s) d = Some c" "isAvailable c"
      "seat_update (\<lambda>x. seat_id x = seat_id s \<and> isAvailable x) False d = Inr d1"
      "booking_update p (seat_id s) d1 = Inl (PrismaClientKnownRequestError ''P2002'')"
    have a: "attempt_seat p s d = (Failed (PrismaClientKnownRequestError ''P2002''), d1)"
      using h by (rule attempt_seat_binding_rejected)
    then have "fst (attempt_seat p s d) \<noteq> Booked" by simp
    from try_seats_advance[OF this, of rest i] a
    have "try_seats p (s # rest) i d = try_seats p rest (i + 1) d1" by simp
    with a show "attempt_seat p s d = (Failed (PrismaClientKnownRequestError ''P2002''), d1) \<and>
      try_seats p (s # rest) i d = try_seats p rest (i + 1) d1" by simp
  qed
  have 2: "booking_findUnique p d0 = Some b \<and>
    seat_findMany (targetFlightId fid b) 5 d0 = Inr (pre @ s # rest) \<and>
    try_seats p pre 0 d0 = (None, d) \<and>
    fst (attempt_seat p s d) = Failed (PrismaClientKnownRequestError ''P2002'') \<longrightarrow>
      selectNextAvailableSeatUnsafe d0 p fid =
        (case try_seats p rest (length pre + 1) (snd (attempt_seat p s d)) of
           (Some r, d') \<Rightarrow> (Inr r, d')
         | (None, d') \<Rightarrow>
             (Inl (Error
               ''Unable to assign any seat - all attempts failed due to concurrent access''),
              d')) \<and>
      (fst (selectNextAvailableSeatUnsafe d0 p fid) =
         Inl (Error ''Unable to assign any seat - all attempts failed due to concurrent access'') \<or>
       (\<exists>r c. fst (selectNextAvailableSeatUnsafe d0 p fid) = Inr r \<and> c \<in> set rest \<and>
          r_seatId r = seat_id c \<and> r_seatNumber r = seatNumber c))"
  proof (intro impI, elim conjE)
    assume h: "booking_findUnique p d0 = Some b"
      "seat_findMany (targetFlightId fid b) 5 d0 = Inr (pre @ s # rest)"
      "try_seats p pre 0 d0 = (None, d)"
      and f: "fst (attempt_seat p s d) = Failed (PrismaClientKnownRequestError ''P2002'')"
    from f have nb: "fst (attempt_seat p s d) \<noteq> Booked" by simp
    from unsafe_after_rejection[OF h nb] unsafe_after_rejection_cases[OF h nb]
    show "selectNextAvailableSeatUnsafe d0 p fid =
        (case try_seats p rest (length pre + 1) (snd (attempt_seat p s d)) of
           (Some r, d') \<Rightarrow> (Inr r, d')
         | (None, d') \<Rightarrow>
             (Inl (Error
               ''Unable to assign any seat - all attempts failed due to concurrent access''),
              d')) \<and>
      (fst (selectNextAvailableSeatUnsafe d0 p fid) =
         Inl (Error ''Unable to assign any seat - all attempts failed due to concurrent access'') \<or>
       (\<exists>r c. fst (selectNextAvailableSeatUnsafe d0 p fid) = Inr r \<and> c \<in> set rest \<and>
          r_seatId r = seat_id c \<and> r_seatNumber r = seatNumber c))"
      by (rule conjI)
  qed
  note 3 = unsafe_write_errors_caught[of d0 p fid, THEN conjunct1]
  note 4 = unsafe_write_errors_caught[of d0 p fid, THEN conjunct2]
  have 5: "selectNextAvailableSeatUnsafe d0 p fid = (Inr r0, d0') \<longrightarrow>
      (\<exists>b'. booking_findUnique p d0' = Some b' \<and> seatId b' = Some (r_seatId r0) \<and>
         checkedIn b')"
    using unsafe_success_bound[of d0 p fid r0 d0'] by (rule impI)
  have 6: "booking_findUnique p d0 = Some b \<and> seat_findMany (targetFlightId fid b) 5 d0 = Inl e \<longrightarrow>
      selectNextAvailableSeatUnsafe d0 p fid = (Inl e, d0)"
    using unsafe_out_of_range[of p d0 b fid e] by blast
  from 1 2 3 4 5 6 show ?thesis by (intro conjI)
qed

theorem unsafe_catches_rejected_binding_witness:
  "attempt_seat ''PNR001'' seat_10A stale_db =
     (Failed (PrismaClientKnownRequestError ''P2002''),
      snd (attempt_seat ''PNR001'' seat_10A stale_db)) \<and>
   try_seats ''PNR001'' [seat_10A, seat_10B] 0 stale_db =
     try_seats ''PNR001'' [seat_10B] (0 + 1) (snd (attempt_seat ''PNR001'' seat_10A stale_db)) \<and>
   seat_findMany 1 5 stale_db = Inr [seat_10A, seat_10B, seat_10C, seat_10D, seat_10E] \<and>
   selectNextAvailableSeatUnsafe stale_db ''PNR001'' None =
     (case try_seats ''PNR001'' [seat_10B, seat_10C, seat_10D, seat_10E] (length ([] :: seat list) + 1)
             (snd (attempt_seat ''PNR001'' seat_10A stale_db)) of
        (Some r, d') \<Rightarrow> (Inr r, d')
      | (None, d') \<Rightarrow>
          (Inl (Error ''Unable to assign any seat - all attempts failed due to concurrent access''),
           d')) \<and>
   fst (selectNextAvailableSeatUnsafe stale_db ''PNR001'' None) =
     Inr \<lparr>success = True, r_seatNumber = ''10B'', r_seatId = 2, r_method = ''unsafe'',
          attemptsNeeded = Some 2\<rparr> \<and>
   map_option seatId
     (booking_findUnique ''PNR001'' (snd (selectNextAvailableSeatUnsafe stale_db ''PNR001'' None))) =
     Some (Some 2) \<and>
   seat_findMany 1 5 stale_all_db = Inr [seat_10A, seat_10B, seat_10C, seat_10D, seat_10E] \<and>
   try_seats ''PNR001'' [seat_10A, seat_10B, seat_10C, seat_10D] 0 stale_all_db =
     (None, snd (try_seats ''PNR001'' [seat_10A, seat_10B, seat_10C, seat_10D] 0 stale_all_db)) \<and>
   fst (attempt_seat ''PNR001'' seat_10E
          (snd (try_seats ''PNR001'' [seat_10A, seat_10B, seat_10C, seat_10D] 0 stale_all_db))) =
     Failed (PrismaClientKnownRequestError ''P2002'') \<and>
   fst (selectNextAvailableSeatUnsafe stale_all_db ''PNR001'' None) =
     Inl (Error ''Unable to assign any seat - all attempts failed due to concurrent access'') \<and>
   \<not> int4 2147483648 \<and>
   selectNextAvailableSeatUnsafe fresh_db ''PNR001'' (Some 2147483648) =
     (Inl (PrismaClientKnownRequestError ''P2020''), fresh_db)"
proof -
  let ?p = "''PNR001''"
  let ?d1 = "snd (attempt_seat ?p seat_10A stale_db)"
  let ?r = "\<lparr>success = True, r_seatNumber = ''10B'', r_seatId = 2, r_method = ''unsafe'',
          attemptsNeeded = Some 2\<rparr>"
  let ?d' = "snd (selectNextAvailableSeatUnsafe stale_db ?p None)"
  let ?dn = "snd (try_seats ?p [seat_10A, seat_10B, seat_10C, seat_10D] 0 stale_all_db)"
  let ?gen = "Error ''Unable to assign any seat - all attempts failed due to concurrent access''"
  have h1: "seat_findUnique (seat_id seat_10A) stale_db = Some seat_10A \<and> isAvailable seat_10A \<and>
    seat_update (\<lambda>x. seat_id x = seat_id seat_10A \<and> isAvailable x) False stale_db = Inr ?d1 \<and>
    booking_update ?p (seat_id seat_10A) ?d1 = Inl (PrismaClientKnownRequestError ''P2002'')"
    by code_simp
  have w: "seat_findMany 1 5 stale_db = Inr [seat_10A, seat_10B, seat_10C, seat_10D, seat_10E]"
    by code_simp
  have h2: "booking_findUnique ?p stale_db = Some (unbound ?p) \<and>
    seat_findMany (targetFlightId None (unbound ?p)) 5 stale_db =
      Inr ([] @ seat_10A # [seat_10B, seat_10C, seat_10D, seat_10E]) \<and>
    try_seats ?p [] 0 stale_db = (None, stale_db) \<and>
    fst (attempt_seat ?p seat_10A stale_db) = Failed (PrismaClientKnownRequestError ''P2002'')"
    by code_simp
  have r: "selectNextAvailableSeatUnsafe stale_db ?p None = (Inr ?r, ?d')"
    by code_simp
  have r': "fst (selectNextAvailableSeatUnsafe stale_db ?p None) = Inr ?r"
    by code_simp
  note A = unsafe_catches_rejected_binding[where s = seat_10A and d = stale_db and c = seat_10A
      and ?d1.0 = ?d1 and p = ?p and rest = "[seat_10B, seat_10C, seat_10D, seat_10E]" and i = 0
      and fid = None and ?d0.0 = stale_db and b = "unbound ?p" and pre = "[]"
      and ?r0.0 = ?r and ?d0' = ?d']
  from A[THEN conjunct1, THEN mp, OF h1]
  have 1: "attempt_seat ?p seat_10A stale_db =
      (Failed (PrismaClientKnownRequestError ''P2002''), ?d1)" by (rule conjunct1)
  from unsafe_catches_rejected_binding[where s = seat_10A and d = stale_db and c = seat_10A
      and ?d1.0 = ?d1 and p = ?p and rest = "[seat_10B]" and i = 0,
      THEN conjunct1, THEN mp, OF h1]
  have 2: "try_seats ?p [seat_10A, seat_10B] 0 stale_db = try_seats ?p [seat_10B] (0 + 1) ?d1"
    by (rule conjunct2)
  from A[THEN conjunct2, THEN conjunct1, THEN mp, OF h2]
  have 3: "selectNextAvailableSeatUnsafe stale_db ?p None =
     (case try_seats ?p [seat_10B, seat_10C, seat_10D, seat_10E] (length ([] :: seat list) + 1) ?d1 of
        (Some r, d') \<Rightarrow> (Inr r, d')
      | (None, d') \<Rightarrow> (Inl ?gen, d'))" by (rule conjunct1)
  from A[THEN conjunct2, THEN conjunct2, THEN conjunct2, THEN conjunct2, THEN conjunct1,
      THEN mp, OF r]
  have "\<exists>b'. booking_findUnique ?p ?d' = Some b' \<and> seatId b' = Some (r_seatId ?r) \<and> checkedIn b'" .
  then have 5: "map_option seatId (booking_findUnique ?p ?d') = Some (Some 2)" by auto
  have wn: "seat_findMany 1 5 stale_all_db = Inr [seat_10A, seat_10B, seat_10C, seat_10D, seat_10E]"
    by code_simp
  have tn: "try_seats ?p [seat_10A, seat_10B, seat_10C, seat_10D] 0 stale_all_db = (None, ?dn)"
    by code_simp
  have an: "fst (attempt_seat ?p seat_10E ?dn) = Failed (PrismaClientKnownRequestError ''P2002'')"
    by code_simp
  have hn: "booking_findUnique ?p stale_all_db = Some (unbound ?p) \<and>
    seat_findMany (targetFlightId None (unbound ?p)) 5 stale_all_db =
      Inr ([seat_10A, seat_10B, seat_10C, seat_10D] @ seat_10E # []) \<and>
    try_seats ?p [seat_10A, seat_10B, seat_10C, seat_10D] 0 stale_all_db = (None, ?dn) \<and>
    fst (attempt_seat ?p seat_10E ?dn) = Failed (PrismaClientKnownRequestError ''P2002'')"
    by code_simp
  from unsafe_catches_rejected_binding[where p = ?p and fid = None and ?d0.0 = stale_all_db
      and b = "unbound ?p" and pre = "[seat_10A, seat_10B, seat_10C, seat_10D]" and s = seat_10E
      and rest = "[]" and d = ?dn, THEN conjunct2, THEN conjunct1, THEN mp, OF hn]
  have "fst (selectNextAvailableSeatUnsafe stale_all_db ?p None) = Inl ?gen \<or>
       (\<exists>r (c :: seat). fst (selectNextAvailableSeatUnsafe stale_all_db ?p None) = Inr r \<and>
          c \<in> set [] \<and>
          r_seatId r = seat_id c \<and> r_seatNumber r = seatNumber c)" by (rule conjunct2)
  then have 6: "fst (selectNextAvailableSeatUnsafe stale_all_db ?p None) = Inl ?gen" by simp
  have i: "\<not> int4 2147483648" by code_simp
  have ho: "booking_findUnique ?p fresh_db = Some (unbound ?p) \<and>
    seat_findMany (targetFlightId (Some 2147483648) (unbound ?p)) 5 fresh_db =
      Inl (PrismaClientKnownRequestError ''P2020'')"
    by code_simp
  from unsafe_catches_rejected_binding[where p = ?p and fid = "Some 2147483648"
      and ?d0.0 = fresh_db and b = "unbound ?p" and e = "PrismaClientKnownRequestError ''P2020''",
      THEN conjunct2, THEN conjunct2, THEN conjunct2, THEN conjunct2, THEN conjunct2,
      THEN mp, OF ho]
  have 7: "selectNextAvailableSeatUnsafe fresh_db ?p (Some 2147483648) =
     (Inl (PrismaClientKnownRequestError ''P2020''), fresh_db)" .
  from 1 2 w 3 r' 5 wn tn an 6 i 7 show ?thesis by (intro conjI)
qed

text \<open>
  Claim C4 as stated fails. In \<open>stale_db\<close> the binding write for the first candidate,
  seat 10A, is rejected by the uniqueness constraint, and the call returns a success for
  seat 10B. In \<open>stale_all_db\<close> the write is rejected for every candidate, and the call
  throws the plain error of the exhausted loop, not the storage error.
\<close>

theorem unsafe_storage_error_surfaced_counterexample:
  "seat_findMany 1 5 stale_db = Inr [seat_10A, seat_10B, seat_10C, seat_10D, seat_10E] \<and>
   fst (attempt_seat ''PNR001'' seat_10A stale_db) = Failed (PrismaClientKnownRequestError ''P2002'') \<and>
   fst (selectNextAvailableSeatUnsafe stale_db ''PNR001'' None) =
     Inr \<lparr>success = True, r_seatNumber = ''10B'', r_seatId = 2, r_method = ''unsafe'',
          attemptsNeeded = Some 2\<rparr> \<and>
   seat_findMany 1 5 stale_all_db = Inr [seat_10A, seat_10B, seat_10C, seat_10D, seat_10E] \<and>
   fst (attempt_seat ''PNR001'' seat_10A stale_all_db) =
     Failed (PrismaClientKnownRequestError ''P2002'') \<and>
   fst (selectNextAvailableSeatUnsafe stale_all_db ''PNR001'' None) =
     Inl (Error ''Unable to assign any seat - all attempts failed due to concurrent access'') \<and>
   fst (selectNextAvailableSeatUnsafe stale_all_db ''PNR001'' None) \<noteq>
     Inl (PrismaClientKnownRequestError ''P2002'')"
  by code_simp

section \<open>A failed attempt of the unsafe method is not undone\<close>

text \<open>
  Claim C9, as amended. When the binding write for a candidate fails after the conditional
  seat update went through, the seat stays marked unavailable, the bookings are as they
  were (so the requester is not bound to the seat), and the loop goes on with the next
  candidate. So a call that fails in the end, and a call that succeeds on a later
  candidate, can both leave an earlier candidate marked unavailable.
\<close>

theorem unsafe_failed_binding_keeps_seat_unavailable:
  "(seat_findUnique (seat_id s) d = Some c \<and> isAvailable c \<and>
    seat_update (\<lambda>x. seat_id x = seat_id s \<and> isAvailable x) False d = Inr d1 \<and>
    booking_update p (seat_id s) d1 = Inl e \<longrightarrow>
      attempt_seat p s d = (Failed e, d1) \<and>
      (\<forall>x \<in> set (seats d1). seat_id x = seat_id s \<longrightarrow> \<not> isAvailable x) \<and>
      bookings d1 = bookings d \<and>
      try_seats p (s # rest) i d = try_seats p rest (i + 1) d1) \<and>
   (\<exists>d p fid e s. fst (selectNextAvailableSeatUnsafe d p fid) = Inl e \<and>
      s \<in> set (seats d) \<and> isAvailable s \<and>
      (\<forall>x \<in> set (seats (snd (selectNextAvailableSeatUnsafe d p fid))).
          seat_id x = seat_id s \<longrightarrow> \<not> isAvailable x)) \<and>
   (\<exists>d p fid r s. fst (selectNextAvailableSeatUnsafe d p fid) = Inr r \<and>
      s \<in> set (seats d) \<and> isAvailable s \<and> seat_id s \<noteq> r_seatId r \<and>
      (\<forall>x \<in> set (seats (snd (selectNextAvailableSeatUnsafe d p fid))).
          seat_id x = seat_id s \<longrightarrow> \<not> isAvailable x))"
proof -
  have 1: "seat_findUnique (seat_id s) d = Some c \<and> isAvailable c \<and>
    seat_update (\<lambda>x. seat_id x = seat_id s \<and> isAvailable x) False d = Inr d1 \<and>
    booking_update p (seat_id s) d1 = Inl e \<longrightarrow>
      attempt_seat p s d = (Failed e, d1) \<and>
      (\<forall>x \<in> set (seats d1). seat_id x = seat_id s \<longrightarrow> \<not> isAvailable x) \<and>
      bookings d1 = bookings d \<and>
      try_seats p (s # rest) i d = try_seats p rest (i + 1) d1"
  proof (intro impI, elim conjE)
    assume h: "seat_findUnique (seat_id s) d = Some c" "isAvailable c"
      "seat_update (\<lambda>x. seat_id x = seat_id s \<and> isAvailable x) False d = Inr d1"
      "booking_update p (seat_id s) d1 = Inl e"
    have a: "attempt_seat p s d = (Failed e, d1)"
      using h by (rule attempt_seat_binding_rejected)
    then have "fst (attempt_seat p s d) \<noteq> Booked" by simp
    from try_seats_advance[OF this, of rest i] a
    have t: "try_seats p (s # rest) i d = try_seats p rest (i + 1) d1" by simp
    have f: "\<forall>x \<in> set (seats d1). seat_id x = seat_id s \<longrightarrow> \<not> isAvailable x"
      using seat_update_flips[OF h(3)] by blast
    have b: "bookings d1 = bookings d" using seat_update_bookings[OF h(3)] by simp
    from a f b t show "attempt_seat p s d = (Failed e, d1) \<and>
      (\<forall>x \<in> set (seats d1). seat_id x = seat_id s \<longrightarrow> \<not> isAvailable x) \<and>
      bookings d1 = bookings d \<and>
      try_seats p (s # rest) i d = try_seats p rest (i + 1) d1" by simp
  qed
  have "fst (selectNextAvailableSeatUnsafe stale_all_db ''PNR001'' None) =
      Inl (Error ''Unable to assign any seat - all attempts failed due to concurrent access'') \<and>
      seat_10A \<in> set (seats stale_all_db) \<and> isAvailable seat_10A \<and>
      (\<forall>x \<in> set (seats (snd (selectNextAvailableSeatUnsafe stale_all_db ''PNR001'' None))).
          seat_id x = seat_id seat_10A \<longrightarrow> \<not> isAvailable x)"
    by code_simp
  then have 2: "\<exists>d p fid e s. fst (selectNextAvailableSeatUnsafe d p fid) = Inl e \<and>
      s \<in> set (seats d) \<and> isAvailable s \<and>
      (\<forall>x \<in> set (seats (snd (selectNextAvailableSeatUnsafe d p fid))).
          seat_id x = seat_id s \<longrightarrow> \<not> isAvailable x)"
    by blast
  have "fst (selectNextAvailableSeatUnsafe stale_db ''PNR001'' None) =
      Inr \<lparr>success = True, r_seatNumber = ''10B'', r_seatId = 2, r_method = ''unsafe'',
          attemptsNeeded = Some 2\<rparr> \<and>
      seat_10A \<in> set (seats stale_db) \<and> isAvailable seat_10A \<and>
      seat_id seat_10A \<noteq> r_seatId \<lparr>success = True, r_seatNumber = ''10B'', r_seatId = 2,
          r_method = ''unsafe'', attemptsNeeded = Some 2\<rparr> \<and>
      (\<forall>x \<in> set (seats (snd (selectNextAvailableSeatUnsafe stale_db ''PNR001'' None))).
          seat_id x = seat_id seat_10A \<longrightarrow> \<not> isAvailable x)"
    by code_simp
  then have 3: "\<exists>d p fid r s. fst (selectNextAvailableSeatUnsafe d p fid) = Inr r \<and>
      s \<in> set (seats d) \<and> isAvailable s \<and> seat_id s \<noteq> r_seatId r \<and>
      (\<forall>x \<in> set (seats (snd (selectNextAvailableSeatUnsafe d p fid))).
          seat_id x = seat_id s \<longrightarrow> \<not> isAvailable x)"
    by blast
  from 1 2 3 show ?thesis by (intro conjI)
qed

theorem unsafe_failed_binding_keeps_seat_unavailable_witness:
  "seat_findUnique (seat_id seat_10A) stale_db = Some seat_10A \<and> isAvailable seat_10A \<and>
   attempt_seat ''PNR001'' seat_10A stale_db =
     (Failed (PrismaClientKnownRequestError ''P2002''),
      snd (attempt_seat ''PNR001'' seat_10A stale_db)) \<and>
   seat_10A\<lparr>isAvailable := False\<rparr> \<in> set (seats (snd (attempt_seat ''PNR001'' seat_10A stale_db))) \<and>
   seat_id (seat_10A\<lparr>isAvailable := False\<rparr>) = seat_id seat_10A \<and>
   \<not> isAvailable (seat_10A\<lparr>isAvailable := False\<rparr>) \<and>
   bookings (snd (attempt_seat ''PNR001'' seat_10A stale_db)) = bookings stale_db \<and>
   try_seats ''PNR001'' [seat_10A, seat_10B] 0 stale_db =
     try_seats ''PNR001'' [seat_10B] (0 + 1) (snd (attempt_seat ''PNR001'' seat_10A stale_db))"
proof -
  let ?d1 = "snd (attempt_seat ''PNR001'' seat_10A stale_db)"
  have h: "seat_findUnique (seat_id seat_10A) stale_db = Some seat_10A" "isAvailable seat_10A"
    "seat_update (\<lambda>x. seat_id x = seat_id seat_10A \<and> isAvailable x) False stale_db = Inr ?d1"
    "booking_update ''PNR001'' (seat_id seat_10A) ?d1 = Inl (PrismaClientKnownRequestError ''P2002'')"
    by code_simp+
  have m: "seat_10A\<lparr>isAvailable := False\<rparr> \<in> set (seats ?d1)"
    "seat_id (seat_10A\<lparr>isAvailable := False\<rparr>) = seat_id seat_10A"
    by code_simp+
  from unsafe_failed_binding_keeps_seat_unavailable[where s = seat_10A and d = stale_db
      and c = seat_10A and ?d1.0 = ?d1 and p = "''PNR001''" and rest = "[seat_10B]" and i = 0
      and e = "PrismaClientKnownRequestError ''P2002''"] h
  have 1: "attempt_seat ''PNR001'' seat_10A stale_db =
     (Failed (PrismaClientKnownRequestError ''P2002''), ?d1)"
    "\<forall>x \<in> set (seats ?d1). seat_id x = seat_id seat_10A \<longrightarrow> \<not> isAvailable x"
    "bookings ?d1 = bookings stale_db"
    "try_seats ''PNR001'' [seat_10A, seat_10B] 0 stale_db =
     try_seats ''PNR001'' [seat_10B] (0 + 1) ?d1"
    by simp_all
  from 1(2) m have 2: "\<not> isAvailable (seat_10A\<lparr>isAvailable := False\<rparr>)" by blast
  from h(1,2) 1(1) m 2 1(3,4) show ?thesis by (intro conjI)
qed

text \<open>
  Claim C9 as stated fails in one point: the seat need not be left with no binding
  referencing it. In \<open>stale_db\<close> the conditional update of seat 10A goes through, the
  binding write is rejected, the seat is left unavailable, and the booking PNR002, whose
  hold on the seat caused the rejection, still references it.
\<close>

theorem unsafe_failed_binding_bound_counterexample:
  "wf_db stale_db \<and>
   seat_findUnique 1 stale_db = Some seat_10A \<and> isAvailable seat_10A \<and>
   fst (attempt_seat ''PNR001'' seat_10A stale_db) = Failed (PrismaClientKnownRequestError ''P2002'') \<and>
   seat_findUnique 1 (snd (attempt_seat ''PNR001'' seat_10A stale_db)) =
     Some (seat_10A\<lparr>isAvailable := False\<rparr>) \<and>
   bindings_of 1 (snd (attempt_seat ''PNR001'' seat_10A stale_db)) = [holding ''PNR002'' 1]"
  by code_simp

section \<open>Preservation of the invariants\<close>

lemma safe_rollback:
  "fst (selectNextAvailableSeatSafe locked d p fid) = Inl e \<Longrightarrow>
     snd (selectNextAvailableSeatSafe locked d p fid) = d"
  unfolding selectNextAvailableSeatSafe_def by (rule transaction_rollback)

lemma booking_update_Inr:
  assumes "booking_update p sid d = Inr d'"
  shows "bookings d' =
           map (\<lambda>b. if pnr b = p then b\<lparr>seatId := Some sid, checkedIn := True\<rparr> else b) (bookings d)"
    and "seats d' = seats d"
    and "\<exists>b \<in> set (bookings d). pnr b = p"
    and "\<forall>b \<in> set (bookings d). pnr b \<noteq> p \<longrightarrow> seatId b \<noteq> Some sid"
proof -
  have e: "list_ex (\<lambda>b. pnr b = p) (bookings d)"
    using assms by (cases "list_ex (\<lambda>b. pnr b = p) (bookings d)") (simp_all add: booking_update_def)
  have u: "\<not> list_ex (\<lambda>b. pnr b \<noteq> p \<and> seatId b = Some sid) (bookings d)"
    using assms e
    by (cases "list_ex (\<lambda>b. pnr b \<noteq> p \<and> seatId b = Some sid) (bookings d)")
       (simp_all add: booking_update_def)
  from assms e u have d': "d' = d\<lparr>bookings :=
      map (\<lambda>b. if pnr b = p then b\<lparr>seatId := Some sid, checkedIn := True\<rparr> else b) (bookings d)\<rparr>"
    by (simp add: booking_update_def)
  show "bookings d' =
           map (\<lambda>b. if pnr b = p then b\<lparr>seatId := Some sid, checkedIn := True\<rparr> else b) (bookings d)"
    by (simp add: d')
  show "seats d' = seats d" by (simp add: d')
  from e show "\<exists>b \<in> set (bookings d). pnr b = p" by (simp add: list_ex_iff)
  from u show "\<forall>b \<in> set (bookings d). pnr b \<noteq> p \<longrightarrow> seatId b \<noteq> Some sid"
    by (auto simp: list_ex_iff)
qed

lemma mark_available_only:
  "map (\<lambda>s. if seat_id s = sid \<and> isAvailable s then s\<lparr>isAvailable := False\<rparr> else s) xs =
   map (\<lambda>s. if seat_id s = sid then s\<lparr>isAvailable := False\<rparr> else s) xs"
  by (rule map_cong) auto

lemma length_filter_key_le1:
  "distinct (map f xs) \<Longrightarrow> length (filter (\<lambda>x. f x = k) xs) \<le> 1"
proof (induction xs)
  case Nil
  then show ?case by simp
next
  case (Cons x xs)
  show ?case
  proof (cases "f x = k")
    case True
    with Cons.prems have "\<forall>y \<in> set xs. f y \<noteq> k" by (auto simp: image_iff)
    then have "filter (\<lambda>x. f x = k) xs = []" by (simp add: filter_empty_conv)
    with True show ?thesis by simp
  next
    case False
    with Cons show ?thesis by simp
  qed
qed

lemma bindings_of_assigned_same:
  assumes un: "\<forall>b \<in> set bs. pnr b \<noteq> p \<longrightarrow> seatId b \<noteq> Some sid"
  shows "filter (\<lambda>b. seatId b = Some sid)
           (map (\<lambda>b. if pnr b = p then b\<lparr>seatId := Some sid, checkedIn := True\<rparr> else b) bs) =
         map (\<lambda>b. b\<lparr>seatId := Some sid, checkedIn := True\<rparr>) (filter (\<lambda>b. pnr b = p) bs)"
  using un by (induction bs) auto

lemma bindings_of_assigned_other:
  assumes "y \<noteq> sid"
  shows "filter (\<lambda>b. seatId b = Some y)
           (map (\<lambda>b. if pnr b = p then b\<lparr>seatId := Some sid, checkedIn := True\<rparr> else b) bs) =
         filter (\<lambda>b. pnr b \<noteq> p) (filter (\<lambda>b. seatId b = Some y) bs)"
  using assms by (induction bs) auto

lemma assigned_binding_invariant:
  assumes dp: "distinct (map pnr (bookings d))"
    and ex: "\<exists>b \<in> set (bookings d). pnr b = p"
    and un: "\<forall>b \<in> set (bookings d). pnr b \<noteq> p \<longrightarrow> seatId b \<noteq> Some sid"
    and s': "seats d' = map (\<lambda>s. if seat_id s = sid then s\<lparr>isAvailable := False\<rparr> else s) (seats d)"
    and b': "bookings d' =
      map (\<lambda>b. if pnr b = p then b\<lparr>seatId := Some sid, checkedIn := True\<rparr> else b) (bookings d)"
    and inv: "binding_invariant d"
  shows "binding_invariant d'"
  unfolding binding_invariant_def
proof (intro ballI)
  fix x assume "x \<in> set (seats d')"
  then obtain x0 where x0: "x0 \<in> set (seats d)"
    and x: "x = (if seat_id x0 = sid then x0\<lparr>isAvailable := False\<rparr> else x0)"
    unfolding s' by auto
  have id: "seat_id x = seat_id x0" using x by simp
  show "length (bindings_of (seat_id x) d') \<le> 1 \<and>
        (bindings_of (seat_id x) d' \<noteq> [] \<longrightarrow> \<not> isAvailable x)"
  proof (cases "seat_id x0 = sid")
    case True
    have "bindings_of sid d' =
        map (\<lambda>b. b\<lparr>seatId := Some sid, checkedIn := True\<rparr>) (filter (\<lambda>b. pnr b = p) (bookings d))"
      unfolding bindings_of_def b' using un by (rule bindings_of_assigned_same)
    then have "length (bindings_of sid d') \<le> 1"
      using length_filter_key_le1[OF dp, of p] by simp
    with True id x show ?thesis by simp
  next
    case False
    have eq: "bindings_of (seat_id x0) d' = filter (\<lambda>b. pnr b \<noteq> p) (bindings_of (seat_id x0) d)"
      unfolding bindings_of_def b' using False by (rule bindings_of_assigned_other)
    from inv x0 have i0: "length (bindings_of (seat_id x0) d) \<le> 1"
      "bindings_of (seat_id x0) d \<noteq> [] \<longrightarrow> \<not> isAvailable x0"
      by (auto simp: binding_invariant_def)
    have "length (bindings_of (seat_id x0) d') \<le> length (bindings_of (seat_id x0) d)"
      unfolding eq by (rule length_filter_le)
    moreover have "bindings_of (seat_id x0) d' \<noteq> [] \<longrightarrow> bindings_of (seat_id x0) d \<noteq> []"
      unfolding eq by auto
    ultimately show ?thesis using i0 False x id by auto
  qed
qed

lemma assigned_state_invariant:
  assumes dp: "distinct (map pnr (bookings d))"
    and ex: "\<exists>b \<in> set (bookings d). pnr b = p"
    and un: "\<forall>b \<in> set (bookings d). pnr b \<noteq> p \<longrightarrow> seatId b \<noteq> Some sid"
    and s': "seats d' = map (\<lambda>s. if seat_id s = sid then s\<lparr>isAvailable := False\<rparr> else s) (seats d)"
    and b': "bookings d' =
      map (\<lambda>b. if pnr b = p then b\<lparr>seatId := Some sid, checkedIn := True\<rparr> else b) (bookings d)"
    and inv: "state_invariant d"
    and free: "\<forall>b \<in> set (bookings d). pnr b = p \<longrightarrow> seatId b = None"
  shows "state_invariant d'"
  unfolding state_invariant_def
proof (intro ballI)
  fix x assume "x \<in> set (seats d')"
  then obtain x0 where x0: "x0 \<in> set (seats d)"
    and x: "x = (if seat_id x0 = sid then x0\<lparr>isAvailable := False\<rparr> else x0)"
    unfolding s' by auto
  have id: "seat_id x = seat_id x0" using x by simp
  show "length (bindings_of (seat_id x) d') \<le> 1 \<and>
        (\<not> isAvailable x \<longleftrightarrow> bindings_of (seat_id x) d' \<noteq> [])"
  proof (cases "seat_id x0 = sid")
    case True
    have eq: "bindings_of sid d' =
        map (\<lambda>b. b\<lparr>seatId := Some sid, checkedIn := True\<rparr>) (filter (\<lambda>b. pnr b = p) (bookings d))"
      unfolding bindings_of_def b' using un by (rule bindings_of_assigned_same)
    then have "length (bindings_of sid d') \<le> 1"
      using length_filter_key_le1[OF dp, of p] by simp
    moreover from ex have "filter (\<lambda>b. pnr b = p) (bookings d) \<noteq> []"
      by (simp add: filter_empty_conv)
    then have "bindings_of sid d' \<noteq> []" unfolding eq by simp
    ultimately show ?thesis using True id x by simp
  next
    case False
    have "filter (\<lambda>b. pnr b \<noteq> p) (bindings_of (seat_id x0) d) = bindings_of (seat_id x0) d"
      unfolding bindings_of_def filter_filter using free by (intro filter_cong) auto
    moreover have "bindings_of (seat_id x0) d' = filter (\<lambda>b. pnr b \<noteq> p) (bindings_of (seat_id x0) d)"
      unfolding bindings_of_def b' using False by (rule bindings_of_assigned_other)
    ultimately have eq: "bindings_of (seat_id x0) d' = bindings_of (seat_id x0) d" by simp
    from inv x0 have "length (bindings_of (seat_id x0) d) \<le> 1 \<and>
      (\<not> isAvailable x0 \<longleftrightarrow> bindings_of (seat_id x0) d \<noteq> [])"
      by (auto simp: state_invariant_def)
    with eq False x id show ?thesis by simp
  qed
qed

lemma find_distinct_key:
  "distinct (map f xs) \<Longrightarrow> x \<in> set xs \<Longrightarrow> find (\<lambda>y. f y = f x) xs = Some x"
proof (induction xs)
  case Nil
  then show ?case by simp
next
  case (Cons a xs)
  then show ?case by (cases "a = x") (auto simp: image_iff)
qed

lemma booking_findUnique_Some:
  "booking_findUnique p d = Some b \<Longrightarrow> b \<in> set (bookings d) \<and> pnr b = p"
  by (auto simp: booking_findUnique_def find_Some_iff)

lemma booking_findUnique_only:
  assumes "distinct (map pnr (bookings d))" "booking_findUnique p d = Some b"
    "b' \<in> set (bookings d)" "pnr b' = p"
  shows "b' = b"
proof -
  from find_distinct_key[OF assms(1,3)] assms(4)
  have "booking_findUnique p d = Some b'" by (simp add: booking_findUnique_def)
  with assms(2) show ?thesis by simp
qed

lemma safe_commit_state:
  assumes "selectNextAvailableSeatSafe l d p fid = (Inr r, d')"
  shows "\<exists>b c w. booking_findUnique p d = Some b \<and>
           select_for_update_skip_locked l (targetFlightId fid b) d = Inr (c # w) \<and>
           r_seatId r = seat_id c \<and> r_seatNumber r = seatNumber c \<and>
           seats d' = map (\<lambda>s. if seat_id s = seat_id c then s\<lparr>isAvailable := False\<rparr> else s) (seats d) \<and>
           bookings d' = map (\<lambda>b. if pnr b = p then b\<lparr>seatId := Some (seat_id c), checkedIn := True\<rparr> else b)
                           (bookings d) \<and>
           (\<forall>b \<in> set (bookings d). pnr b \<noteq> p \<longrightarrow> seatId b \<noteq> Some (seat_id c))"
proof -
  from safe_success[OF assms] obtain b c w d1 where
    b: "booking_findUnique p d = Some b"
    and c: "select_for_update_skip_locked l (targetFlightId fid b) d = Inr (c # w)"
      "r_seatId r = seat_id c" "r_seatNumber r = seatNumber c"
    and w: "seat_update (\<lambda>x. seat_id x = seat_id c) False d = Inr d1"
      "booking_update p (seat_id c) d1 = Inr d'"
    by blast
  have b1: "bookings d1 = bookings d" using seat_update_bookings[OF w(1)] by simp
  have "seats d' = map (\<lambda>s. if seat_id s = seat_id c then s\<lparr>isAvailable := False\<rparr> else s) (seats d)"
    using booking_update_Inr(2)[OF w(2)] seat_update_seats[OF w(1)] by simp
  moreover have "bookings d' =
      map (\<lambda>b. if pnr b = p then b\<lparr>seatId := Some (seat_id c), checkedIn := True\<rparr> else b) (bookings d)"
    using booking_update_Inr(1)[OF w(2)] b1 by simp
  moreover have "\<forall>b \<in> set (bookings d). pnr b \<noteq> p \<longrightarrow> seatId b \<noteq> Some (seat_id c)"
    using booking_update_Inr(4)[OF w(2)] b1 by simp
  ultimately show ?thesis using b c by blast
qed

lemma attempt_seat_books:
  assumes ds: "distinct (map seat_id (seats d))" and c: "c \<in> set (seats d)" "isAvailable c"
    and ex: "\<exists>b \<in> set (bookings d). pnr b = p"
    and un: "\<forall>b \<in> set (bookings d). pnr b \<noteq> p \<longrightarrow> seatId b \<noteq> Some (seat_id c)"
  shows "attempt_seat p c d =
    (Booked,
     d\<lparr>seats := map (\<lambda>s. if seat_id s = seat_id c then s\<lparr>isAvailable := False\<rparr> else s) (seats d),
       bookings := map (\<lambda>b. if pnr b = p then b\<lparr>seatId := Some (seat_id c), checkedIn := True\<rparr> else b)
                     (bookings d)\<rparr>)"
proof -
  let ?d1 = "d\<lparr>seats := map (\<lambda>s. if seat_id s = seat_id c then s\<lparr>isAvailable := False\<rparr> else s) (seats d)\<rparr>"
  have f: "seat_findUnique (seat_id c) d = Some c"
    unfolding seat_findUnique_def using ds c(1) by (rule find_distinct_key)
  have "list_ex (\<lambda>x. seat_id x = seat_id c \<and> isAvailable x) (seats d)"
    using c by (auto simp: list_ex_iff)
  then have u: "seat_update (\<lambda>x. seat_id x = seat_id c \<and> isAvailable x) False d = Inr ?d1"
    by (simp add: seat_update_def mark_available_only)
  have e: "list_ex (\<lambda>b. pnr b = p) (bookings ?d1)" using ex by (simp add: list_ex_iff)
  have n: "\<not> list_ex (\<lambda>b. pnr b \<noteq> p \<and> seatId b = Some (seat_id c)) (bookings ?d1)"
    using un by (auto simp: list_ex_iff)
  have w: "booking_update p (seat_id c) ?d1 =
    Inr (?d1\<lparr>bookings := map (\<lambda>b. if pnr b = p then b\<lparr>seatId := Some (seat_id c), checkedIn := True\<rparr> else b)
                     (bookings ?d1)\<rparr>)"
    unfolding booking_update_def using e n by simp
  show ?thesis unfolding attempt_seat_def f using c(2) u w by simp
qed

lemma binding_invariant_unreferenced:
  assumes "binding_invariant d" "c \<in> set (seats d)" "isAvailable c"
  shows "\<forall>b \<in> set (bookings d). seatId b \<noteq> Some (seat_id c)"
proof -
  from assms have "bindings_of (seat_id c) d = []"
    by (auto simp: binding_invariant_def)
  then show ?thesis by (auto simp: bindings_of_def filter_empty_conv)
qed

lemma state_invariant_binding_invariant: "state_invariant d \<Longrightarrow> binding_invariant d"
  by (auto simp: state_invariant_def binding_invariant_def)

lemma unsafe_first_candidate:
  assumes ds: "distinct (map seat_id (seats d))" and inv: "binding_invariant d"
    and b: "booking_findUnique p d = Some b"
    and cs: "seat_findMany (targetFlightId fid b) 5 d = Inr (c # cs)"
  shows "selectNextAvailableSeatUnsafe d p fid =
    (Inr \<lparr>success = True, r_seatNumber = seatNumber c, r_seatId = seat_id c,
          r_method = ''unsafe'', attemptsNeeded = Some 1\<rparr>,
     d\<lparr>seats := map (\<lambda>s. if seat_id s = seat_id c then s\<lparr>isAvailable := False\<rparr> else s) (seats d),
       bookings := map (\<lambda>b. if pnr b = p then b\<lparr>seatId := Some (seat_id c), checkedIn := True\<rparr> else b)
                     (bookings d)\<rparr>)"
proof -
  have c: "c \<in> set (seats d)" "isAvailable c" using seat_findMany_set[OF cs, of c] by simp_all
  have ex: "\<exists>b \<in> set (bookings d). pnr b = p" using booking_findUnique_Some[OF b] by blast
  have un: "\<forall>b \<in> set (bookings d). pnr b \<noteq> p \<longrightarrow> seatId b \<noteq> Some (seat_id c)"
    using binding_invariant_unreferenced[OF inv c] by blast
  have "attempt_seat p c d = (Booked,
     d\<lparr>seats := map (\<lambda>s. if seat_id s = seat_id c then s\<lparr>isAvailable := False\<rparr> else s) (seats d),
       bookings := map (\<lambda>b. if pnr b = p then b\<lparr>seatId := Some (seat_id c), checkedIn := True\<rparr> else b)
                     (bookings d)\<rparr>)"
    using ds c ex un by (rule attempt_seat_books)
  then show ?thesis
    unfolding selectNextAvailableSeatUnsafe_def by (simp add: b cs)
qed

lemma seat_findMany_cases [case_names Throws Nil Cons]:
  obtains (Throws) e where "seat_findMany f n d = Inl e"
    | (Nil) "seat_findMany f n d = Inr []"
    | (Cons) c cs where "seat_findMany f n d = Inr (c # cs)"
proof (cases "seat_findMany f n d")
  case (Inl e)
  then show ?thesis by (rule that(1))
next
  case (Inr w)
  then show ?thesis by (cases w) (auto intro: that)
qed

lemma unsafe_unknown:
  assumes "booking_findUnique p d = None"
  shows "snd (selectNextAvailableSeatUnsafe d p fid) = d"
  using assms by (simp add: selectNextAvailableSeatUnsafe_def)

lemma set_map_filter: "set (List.map_filter f xs) = {y. \<exists>x \<in> set xs. f x = Some y}"
  by (induction xs) (auto split: option.splits)

lemma distinct_seatIds_assigned:
  assumes "distinct (map pnr bs)" "distinct (List.map_filter seatId bs)"
    "\<forall>b \<in> set bs. pnr b \<noteq> p \<longrightarrow> seatId b \<noteq> Some sid"
  shows "distinct (List.map_filter seatId
           (map (\<lambda>b. if pnr b = p then b\<lparr>seatId := Some sid, checkedIn := True\<rparr> else b) bs))"
  using assms
proof (induction bs)
  case Nil
  then show ?case by simp
next
  case (Cons b bs)
  let ?g = "\<lambda>b. if pnr b = p then b\<lparr>seatId := Some sid, checkedIn := True\<rparr> else b"
  have IH: "distinct (List.map_filter seatId (map ?g bs))"
    using Cons by (auto split: option.splits)
  have sub: "set (List.map_filter seatId (map ?g bs)) \<subseteq>
               set (List.map_filter seatId bs) \<union> (if p \<in> pnr ` set bs then {sid} else {})"
    by (auto simp: set_map_filter split: if_splits)
  show ?case
  proof (cases "pnr b = p")
    case True
    with Cons.prems(1) have np: "p \<notin> pnr ` set bs" by auto
    have "sid \<notin> set (List.map_filter seatId bs)"
      using Cons.prems(3) np by (force simp: set_map_filter image_iff)
    with sub np have "sid \<notin> set (List.map_filter seatId (map ?g bs))" by auto
    with IH True show ?thesis by simp
  next
    case False
    show ?thesis
    proof (cases "seatId b")
      case None
      with IH False show ?thesis by simp
    next
      case (Some y)
      with Cons.prems(3) False have "y \<noteq> sid" by auto
      moreover from Cons.prems(2) Some have "y \<notin> set (List.map_filter seatId bs)"
        by simp
      ultimately have "y \<notin> set (List.map_filter seatId (map ?g bs))" using sub
        by (auto split: if_splits)
      with IH False Some show ?thesis by simp
    qed
  qed
qed

lemma wf_seat_update:
  assumes "wf_db d" "seat_update wh v d = Inr d1"
  shows "wf_db d1"
proof -
  have "map seat_id (seats d1) = map seat_id (seats d)"
    "map (\<lambda>s. (seat_flightId s, seatNumber s)) (seats d1) =
     map (\<lambda>s. (seat_flightId s, seatNumber s)) (seats d)"
    unfolding seat_update_seats[OF assms(2)] by (simp_all add: comp_def if_distrib cong: if_cong)
  with assms(1) seat_update_bookings[OF assms(2)] show ?thesis by (simp add: wf_db_def)
qed

lemma wf_booking_update:
  assumes "wf_db d" "booking_update p sid d = Inr d'"
  shows "wf_db d'"
proof -
  note u = booking_update_Inr[OF assms(2)]
  have "map pnr (bookings d') = map pnr (bookings d)"
    unfolding u(1) by (simp add: comp_def if_distrib cong: if_cong)
  moreover have "distinct (List.map_filter seatId (bookings d'))"
    unfolding u(1) using assms(1) u(4) by (intro distinct_seatIds_assigned) (auto simp: wf_db_def)
  ultimately show ?thesis using assms(1) u(2) by (simp add: wf_db_def)
qed

lemma wf_attempt_seat: "wf_db d \<Longrightarrow> wf_db (snd (attempt_seat p s d))"
  by (auto simp: attempt_seat_def split: option.splits sum.splits
           intro: wf_seat_update wf_booking_update)

lemma wf_try_seats: "wf_db d \<Longrightarrow> wf_db (snd (try_seats p cs i d))"
proof (induction cs arbitrary: i d)
  case Nil
  then show ?case by simp
next
  case (Cons s rest)
  show ?case
  proof (cases "fst (attempt_seat p s d) = Booked")
    case True
    then have "snd (try_seats p (s # rest) i d) = snd (attempt_seat p s d)"
      by (cases "attempt_seat p s d") auto
    with wf_attempt_seat[OF Cons.prems] show ?thesis by simp
  next
    case False
    from try_seats_advance[OF False] Cons.IH[OF wf_attempt_seat[OF Cons.prems]]
    show ?thesis by simp
  qed
qed

lemma wf_unsafe: "wf_db d \<Longrightarrow> wf_db (snd (selectNextAvailableSeatUnsafe d p fid))"
proof -
  assume wf: "wf_db d"
  show ?thesis
  proof (cases "booking_findUnique p d")
    case None
    then show ?thesis using wf by (simp add: selectNextAvailableSeatUnsafe_def)
  next
    case (Some b)
    show ?thesis
    proof (cases rule: seat_findMany_cases[of "targetFlightId fid b" 5 d])
      case (Throws e)
      with unsafe_out_of_range[OF Some] wf show ?thesis by simp
    next
      case Nil
      with unsafe_no_seats[OF Some] wf show ?thesis by simp
    next
      case (Cons c cs)
      have "snd (selectNextAvailableSeatUnsafe d p fid) = snd (try_seats p (c # cs) 0 d)"
        unfolding unsafe_result[OF Some Cons list.distinct(2)]
        by (cases "try_seats p (c # cs) 0 d") (auto split: option.splits)
      then show ?thesis using wf_try_seats[OF wf, of p "c # cs" 0] by (simp only:)
    qed
  qed
qed

lemma wf_safe: "wf_db d \<Longrightarrow> wf_db (snd (selectNextAvailableSeatSafe l d p fid))"
proof -
  assume wf: "wf_db d"
  show ?thesis
  proof (cases "fst (selectNextAvailableSeatSafe l d p fid)")
    case (Inl e)
    from safe_rollback[OF this] wf show ?thesis by simp
  next
    case (Inr r)
    then have eq: "selectNextAvailableSeatSafe l d p fid =
        (Inr r, snd (selectNextAvailableSeatSafe l d p fid))"
      by (metis prod.collapse)
    from safe_success[OF eq] obtain c d1 where
      w: "seat_update (\<lambda>x. seat_id x = seat_id (c::seat)) False d = Inr d1"
        "booking_update p (seat_id c) d1 = Inr (snd (selectNextAvailableSeatSafe l d p fid))"
      by blast
    from wf_booking_update[OF wf_seat_update[OF wf w(1)] w(2)] show ?thesis .
  qed
qed

lemma wf_reset: "wf_db d \<Longrightarrow> wf_db (snd (reset_all_seats d))"
proof -
  have "List.map_filter seatId (map (\<lambda>b. b\<lparr>seatId := None, checkedIn := False\<rparr>) bs) = []"
    for bs :: "booking list"
    by (induction bs) simp_all
  then show "wf_db d \<Longrightarrow> wf_db (snd (reset_all_seats d))"
    by (simp add: reset_all_seats_eq wf_db_def comp_def)
qed

lemma state_invariant_reset: "state_invariant (snd (reset_all_seats d))"
  by (auto simp: reset_all_seats_eq state_invariant_def bindings_of_def filter_empty_conv)

lemma unsafe_binding_invariant:
  assumes wf: "wf_db d" and inv: "binding_invariant d"
  shows "binding_invariant (snd (selectNextAvailableSeatUnsafe d p fid))"
proof (cases "booking_findUnique p d")
  case None
  then show ?thesis using inv by (simp add: unsafe_unknown)
next
  case (Some b)
  show ?thesis
  proof (cases rule: seat_findMany_cases[of "targetFlightId fid b" 5 d])
    case (Throws e)
    with unsafe_out_of_range[OF Some] inv show ?thesis by simp
  next
    case Nil
    with unsafe_no_seats[OF Some] inv show ?thesis by simp
  next
    case (Cons c cs)
    from wf have ds: "distinct (map seat_id (seats d))" and dp: "distinct (map pnr (bookings d))"
      by (simp_all add: wf_db_def)
    have c: "c \<in> set (seats d)" "isAvailable c"
      using seat_findMany_set[OF Cons, of c] by simp_all
    have ex: "\<exists>b \<in> set (bookings d). pnr b = p" using booking_findUnique_Some[OF Some] by blast
    have un: "\<forall>b \<in> set (bookings d). pnr b \<noteq> p \<longrightarrow> seatId b \<noteq> Some (seat_id c)"
      using binding_invariant_unreferenced[OF inv c] by blast
    show ?thesis
      by (rule assigned_binding_invariant[OF dp ex un _ _ inv])
         (simp_all add: unsafe_first_candidate[OF ds inv Some Cons])
  qed
qed

lemma unsafe_state_invariant:
  assumes wf: "wf_db d" and inv: "state_invariant d"
    and free: "\<forall>b. booking_findUnique p d = Some b \<longrightarrow> seatId b = None"
  shows "state_invariant (snd (selectNextAvailableSeatUnsafe d p fid))"
proof (cases "booking_findUnique p d")
  case None
  then show ?thesis using inv by (simp add: unsafe_unknown)
next
  case (Some b)
  show ?thesis
  proof (cases rule: seat_findMany_cases[of "targetFlightId fid b" 5 d])
    case (Throws e)
    with unsafe_out_of_range[OF Some] inv show ?thesis by simp
  next
    case Nil
    with unsafe_no_seats[OF Some] inv show ?thesis by simp
  next
    case (Cons c cs)
    note binv = state_invariant_binding_invariant[OF inv]
    from wf have ds: "distinct (map seat_id (seats d))" and dp: "distinct (map pnr (bookings d))"
      by (simp_all add: wf_db_def)
    have c: "c \<in> set (seats d)" "isAvailable c"
      using seat_findMany_set[OF Cons, of c] by simp_all
    have ex: "\<exists>b \<in> set (bookings d). pnr b = p" using booking_findUnique_Some[OF Some] by blast
    have un: "\<forall>b \<in> set (bookings d). pnr b \<noteq> p \<longrightarrow> seatId b \<noteq> Some (seat_id c)"
      using binding_invariant_unreferenced[OF binv c] by blast
    have fr: "\<forall>b' \<in> set (bookings d). pnr b' = p \<longrightarrow> seatId b' = None"
      using booking_findUnique_only[OF dp Some] free Some by blast
    show ?thesis
      by (rule assigned_state_invariant[OF dp ex un _ _ inv fr])
         (simp_all add: unsafe_first_candidate[OF ds binv Some Cons])
  qed
qed

lemma safe_binding_invariant:
  assumes wf: "wf_db d" and inv: "binding_invariant d"
  shows "binding_invariant (snd (selectNextAvailableSeatSafe l d p fid))"
proof (cases "fst (selectNextAvailableSeatSafe l d p fid)")
  case (Inl e)
  from safe_rollback[OF this] inv show ?thesis by simp
next
  case (Inr r)
  let ?d' = "snd (selectNextAvailableSeatSafe l d p fid)"
  from Inr have eq: "selectNextAvailableSeatSafe l d p fid = (Inr r, ?d')"
    by (metis prod.collapse)
  from wf have dp: "distinct (map pnr (bookings d))" by (simp add: wf_db_def)
  from safe_commit_state[OF eq] obtain b and c :: seat where
    b: "booking_findUnique p d = Some b"
    and s': "seats ?d' = map (\<lambda>s. if seat_id s = seat_id c then s\<lparr>isAvailable := False\<rparr> else s) (seats d)"
    and b': "bookings ?d' =
        map (\<lambda>b. if pnr b = p then b\<lparr>seatId := Some (seat_id c), checkedIn := True\<rparr> else b) (bookings d)"
    and un: "\<forall>b \<in> set (bookings d). pnr b \<noteq> p \<longrightarrow> seatId b \<noteq> Some (seat_id c)"
    by blast
  have ex: "\<exists>b \<in> set (bookings d). pnr b = p" using booking_findUnique_Some[OF b] by blast
  show ?thesis by (rule assigned_binding_invariant[OF dp ex un s' b' inv])
qed

lemma safe_state_invariant:
  assumes wf: "wf_db d" and inv: "state_invariant d"
    and free: "\<forall>b. booking_findUnique p d = Some b \<longrightarrow> seatId b = None"
  shows "state_invariant (snd (selectNextAvailableSeatSafe l d p fid))"
proof (cases "fst (selectNextAvailableSeatSafe l d p fid)")
  case (Inl e)
  from safe_rollback[OF this] inv show ?thesis by simp
next
  case (Inr r)
  let ?d' = "snd (selectNextAvailableSeatSafe l d p fid)"
  from Inr have eq: "selectNextAvailableSeatSafe l d p fid = (Inr r, ?d')"
    by (metis prod.collapse)
  from wf have dp: "distinct (map pnr (bookings d))" by (simp add: wf_db_def)
  from safe_commit_state[OF eq] obtain b and c :: seat where
    b: "booking_findUnique p d = Some b"
    and s': "seats ?d' = map (\<lambda>s. if seat_id s = seat_id c then s\<lparr>isAvailable := False\<rparr> else s) (seats d)"
    and b': "bookings ?d' =
        map (\<lambda>b. if pnr b = p then b\<lparr>seatId := Some (seat_id c), checkedIn := True\<rparr> else b) (bookings d)"
    and un: "\<forall>b \<in> set (bookings d). pnr b \<noteq> p \<longrightarrow> seatId b \<noteq> Some (seat_id c)"
    by blast
  have ex: "\<exists>b \<in> set (bookings d). pnr b = p" using booking_findUnique_Some[OF b] by blast
  have fr: "\<forall>b' \<in> set (bookings d). pnr b' = p \<longrightarrow> seatId b' = None"
    using booking_findUnique_only[OF dp b] free b by blast
  show ?thesis by (rule assigned_state_invariant[OF dp ex un s' b' inv fr])
qed


text \<open>
  Claim C2, as amended. Started in a state that satisfies the unique indexes of the schema,
  and run on its own, every operation of the engine (the unsafe method, the safe method,
  the reset of all seats) keeps those indexes and keeps this invariant: at most one live
  binding references a seat, and a seat that a live binding references is unavailable.
  The reset establishes the converse as well (an unavailable seat is referenced by a live
  binding), and an assignment keeps the converse when the requester holds no seat before
  the call.
\<close>

theorem engine_preserves_binding_invariant:
  assumes "wf_db d" and "binding_invariant d"
  shows "wf_db (snd (selectNextAvailableSeatUnsafe d p fid)) \<and>
         binding_invariant (snd (selectNextAvailableSeatUnsafe d p fid)) \<and>
         wf_db (snd (selectNextAvailableSeatSafe locked d p fid)) \<and>
         binding_invariant (snd (selectNextAvailableSeatSafe locked d p fid)) \<and>
         wf_db (snd (reset_all_seats d)) \<and>
         state_invariant (snd (reset_all_seats d)) \<and>
         (state_invariant d \<and> (\<forall>b. booking_findUnique p d = Some b \<longrightarrow> seatId b = None) \<longrightarrow>
            state_invariant (snd (selectNextAvailableSeatUnsafe d p fid)) \<and>
            state_invariant (snd (selectNextAvailableSeatSafe locked d p fid)))"
proof -
  have "state_invariant (snd (selectNextAvailableSeatUnsafe d p fid)) \<and>
        state_invariant (snd (selectNextAvailableSeatSafe locked d p fid))"
    if "state_invariant d \<and> (\<forall>b. booking_findUnique p d = Some b \<longrightarrow> seatId b = None)"
    using that unsafe_state_invariant[OF assms(1)] safe_state_invariant[OF assms(1)] by simp
  then show ?thesis
    using wf_unsafe[OF assms(1)] wf_safe[OF assms(1)] wf_reset[OF assms(1)]
      state_invariant_reset unsafe_binding_invariant[OF assms] safe_binding_invariant[OF assms]
    by simp
qed


theorem engine_preserves_binding_invariant_witness:
  "wf_db fresh_db \<and> binding_invariant fresh_db \<and> state_invariant fresh_db \<and>
   booking_findUnique ''PNR001'' fresh_db = Some (unbound ''PNR001'') \<and>
   seatId (unbound ''PNR001'') = None \<and>
   state_invariant (snd (selectNextAvailableSeatUnsafe fresh_db ''PNR001'' None)) \<and>
   state_invariant (snd (selectNextAvailableSeatSafe [] fresh_db ''PNR001'' None)) \<and>
   state_invariant (snd (reset_all_seats fresh_db)) \<and>
   wf_db checked_in_db \<and> binding_invariant checked_in_db \<and>
   wf_db (snd (selectNextAvailableSeatSafe [] checked_in_db ''PNR001'' None)) \<and>
   binding_invariant (snd (selectNextAvailableSeatSafe [] checked_in_db ''PNR001'' None)) \<and>
   wf_db (snd (selectNextAvailableSeatUnsafe checked_in_db ''PNR001'' None)) \<and>
   binding_invariant (snd (selectNextAvailableSeatUnsafe checked_in_db ''PNR001'' None))"
proof -
  have f: "wf_db fresh_db" "binding_invariant fresh_db" "state_invariant fresh_db"
    by code_simp+
  have b: "booking_findUnique ''PNR001'' fresh_db = Some (unbound ''PNR001'')" by code_simp
  have n: "seatId (unbound ''PNR001'') = None" by (simp add: unbound_def)
  from b n have u: "\<forall>b. booking_findUnique ''PNR001'' fresh_db = Some b \<longrightarrow> seatId b = None"
    by simp
  have c: "wf_db checked_in_db" "binding_invariant checked_in_db" by code_simp+
  from engine_preserves_binding_invariant[OF f(1,2), of "''PNR001''" None "[]"] f(3) u
  have 1: "state_invariant (snd (selectNextAvailableSeatUnsafe fresh_db ''PNR001'' None))"
    "state_invariant (snd (selectNextAvailableSeatSafe [] fresh_db ''PNR001'' None))"
    "state_invariant (snd (reset_all_seats fresh_db))"
    by simp_all
  from engine_preserves_binding_invariant[OF c, of "''PNR001''" None "[]"]
  have 2: "wf_db (snd (selectNextAvailableSeatSafe [] checked_in_db ''PNR001'' None))"
    "binding_invariant (snd (selectNextAvailableSeatSafe [] checked_in_db ''PNR001'' None))"
    "wf_db (snd (selectNextAvailableSeatUnsafe checked_in_db ''PNR001'' None))"
    "binding_invariant (snd (selectNextAvailableSeatUnsafe checked_in_db ''PNR001'' None))"
    by simp_all
  from f b n 1 c 2 show ?thesis by (intro conjI)
qed


text \<open>
  Claim C2 as stated fails for a requester who already holds a seat. PNR001 holds seat 10A
  in \<open>checked_in_db\<close>, where the invariant holds. A second call, with either method,
  binds seat 10B to PNR001 and leaves seat 10A unavailable with no binding referencing it.
\<close>

theorem second_check_in_breaks_invariant_counterexample:
  "wf_db checked_in_db \<and> state_invariant checked_in_db \<and>
   booking_findUnique ''PNR001'' checked_in_db = Some (holding ''PNR001'' 1) \<and>
   fst (selectNextAvailableSeatSafe [] checked_in_db ''PNR001'' None) =
     Inr \<lparr>success = True, r_seatNumber = ''10B'', r_seatId = 2, r_method = ''safe'',
          attemptsNeeded = None\<rparr> \<and>
   \<not> state_invariant (snd (selectNextAvailableSeatSafe [] checked_in_db ''PNR001'' None)) \<and>
   seat_findUnique 1 (snd (selectNextAvailableSeatSafe [] checked_in_db ''PNR001'' None)) =
     Some (seat_10A\<lparr>isAvailable := False\<rparr>) \<and>
   bindings_of 1 (snd (selectNextAvailableSeatSafe [] checked_in_db ''PNR001'' None)) = [] \<and>
   fst (selectNextAvailableSeatUnsafe checked_in_db ''PNR001'' None) =
     Inr \<lparr>success = True, r_seatNumber = ''10B'', r_seatId = 2, r_method = ''unsafe'',
          attemptsNeeded = Some 1\<rparr> \<and>
   \<not> state_invariant (snd (selectNextAvailableSeatUnsafe checked_in_db ''PNR001'' None))"
  by code_simp

section \<open>Ascending seat order\<close>

lemma select_unlocked:
  "int4 f \<Longrightarrow> select_for_update_skip_locked [] f d = Inr (take 1 (available_seats f d))"
  by (simp add: select_for_update_skip_locked_def available_seats_def)





lemma filter_available_marked:
  "filter (\<lambda>s. seat_flightId s = f \<and> isAvailable s)
     (map (\<lambda>s. if seat_id s = sid then s\<lparr>isAvailable := False\<rparr> else s) xs) =
   filter (\<lambda>s. seat_id s \<noteq> sid) (filter (\<lambda>s. seat_flightId s = f \<and> isAvailable s) xs)"
  by (induction xs) auto

lemma available_seats_marked:
  assumes "seats d' = map (\<lambda>s. if seat_id s = sid then s\<lparr>isAvailable := False\<rparr> else s) (seats d)"
  shows "available_seats f d' = filter (\<lambda>s. seat_id s \<noteq> sid) (available_seats f d)"
  unfolding available_seats_def assms filter_available_marked by (simp add: filter_sort)

lemma distinct_ids_available:
  assumes "distinct (map seat_id (seats d))"
  shows "distinct (map seat_id (available_seats f d))"
proof -
  from assms have "distinct (seats d)" "inj_on seat_id (set (seats d))"
    by (simp_all add: distinct_map)
  then have "distinct (available_seats f d)" "inj_on seat_id (set (available_seats f d))"
    by (auto simp: available_seats_def intro: inj_on_subset)
  then show ?thesis by (simp add: distinct_map)
qed

lemma available_seats_tail:
  assumes ds: "distinct (map seat_id (seats d))"
    and a: "available_seats f d = c # rest"
    and s': "seats d' = map (\<lambda>s. if seat_id s = seat_id c then s\<lparr>isAvailable := False\<rparr> else s) (seats d)"
  shows "available_seats f d' = rest"
proof -
  from distinct_ids_available[OF ds, of f] a
  have "\<forall>x \<in> set rest. seat_id x \<noteq> seat_id c" by (force simp: image_iff)
  then have "filter (\<lambda>s. seat_id s \<noteq> seat_id c) rest = rest" by (simp add: filter_id_conv)
  with available_seats_marked[OF s', of f] a show ?thesis by simp
qed

lemma available_seats_other_pool:
  assumes a: "c \<in> set (seats d)" "seat_flightId c \<noteq> f" "distinct (map seat_id (seats d))"
    and s': "seats d' = map (\<lambda>s. if seat_id s = seat_id c then s\<lparr>isAvailable := False\<rparr> else s) (seats d)"
  shows "available_seats f d' = available_seats f d"
proof -
  have "\<forall>x \<in> set (available_seats f d). seat_id x \<noteq> seat_id c"
  proof
    fix x assume "x \<in> set (available_seats f d)"
    then have x: "x \<in> set (seats d)" "seat_flightId x = f" by (auto simp: available_seats_def)
    from a(3) have "inj_on seat_id (set (seats d))" by (simp add: distinct_map)
    with x a(1,2) show "seat_id x \<noteq> seat_id c" by (auto dest: inj_onD)
  qed
  then have "filter (\<lambda>s. seat_id s \<noteq> seat_id c) (available_seats f d) = available_seats f d"
    by (simp add: filter_id_conv)
  with available_seats_marked[OF s', of f] show ?thesis by simp
qed

lemma distinct_map_sort_key: "distinct (map k (sort_key k xs)) = distinct (map k xs)"
  by (induction xs) (simp_all add: distinct_insort_key)

lemma distinct_numbers_in_pool:
  "distinct (map (\<lambda>s. (g s, h s)) xs) \<Longrightarrow> distinct (map h (filter (\<lambda>s. g s = f \<and> P s) xs))"
  by (induction xs) (auto simp: image_iff)

lemma available_seats_strictly_sorted:
  assumes "wf_db d"
  shows "sorted_wrt (<) (map seatNumber (available_seats f d))"
proof -
  from assms have "distinct (map (\<lambda>s. (seat_flightId s, seatNumber s)) (seats d))"
    by (simp add: wf_db_def)
  then have "distinct (map seatNumber (filter (\<lambda>s. seat_flightId s = f \<and> isAvailable s) (seats d)))"
    by (rule distinct_numbers_in_pool)
  then have "distinct (map seatNumber (available_seats f d))"
    by (simp add: available_seats_def distinct_map_sort_key)
  moreover have "sorted (map seatNumber (available_seats f d))"
    by (simp add: available_seats_def)
  ultimately show ?thesis by (simp add: strict_sorted_iff)
qed


lemma draws_from_bookings:
  assumes "bookings d' = map g (bookings d)"
    and "\<And>b. pnr (g b) = pnr b" "\<And>b. flightId (g b) = flightId b"
  shows "draws_from f d' reqs = draws_from f d reqs"
proof -
  have "booking_findUnique p d' = map_option g (booking_findUnique p d)" for p
    unfolding booking_findUnique_def assms(1) using assms(2) by (rule find_map_pnr)
  moreover have "targetFlightId fid (g b) = targetFlightId fid b" for fid b
    by (cases fid) (simp_all add: targetFlightId_def assms(3))
  ultimately have "(case booking_findUnique p d' of None \<Rightarrow> True
                     | Some b \<Rightarrow> targetFlightId fid b = f) =
                   (case booking_findUnique p d of None \<Rightarrow> True
                     | Some b \<Rightarrow> targetFlightId fid b = f)" for p fid
    by (cases "booking_findUnique p d") simp_all
  then show ?thesis by (simp add: draws_from_def)
qed

lemma draws_from_safe:
  "draws_from f (snd (selectNextAvailableSeatSafe l d p fid)) reqs = draws_from f d reqs"
proof (cases "fst (selectNextAvailableSeatSafe l d p fid)")
  case (Inl e)
  from safe_rollback[OF this] show ?thesis by simp
next
  case (Inr r)
  then have eq: "selectNextAvailableSeatSafe l d p fid =
      (Inr r, snd (selectNextAvailableSeatSafe l d p fid))"
    by (metis prod.collapse)
  from safe_commit_state[OF eq] obtain c :: seat where
    "bookings (snd (selectNextAvailableSeatSafe l d p fid)) =
       map (\<lambda>b. if pnr b = p then b\<lparr>seatId := Some (seat_id c), checkedIn := True\<rparr> else b) (bookings d)"
    by blast
  then show ?thesis by (rule draws_from_bookings) simp_all
qed

lemma run_safe_Cons:
  "fst (run_safe d ((p, fid) # reqs)) =
     fst (selectNextAvailableSeatSafe [] d p fid) #
     fst (run_safe (snd (selectNextAvailableSeatSafe [] d p fid)) reqs)"
  by (simp split: prod.splits)



lemma safe_first_candidate:
  assumes b: "booking_findUnique p d = Some b"
    and i: "int4 (targetFlightId fid b)"
    and a: "available_seats (targetFlightId fid b) d = c # rest"
    and un: "\<forall>b \<in> set (bookings d). pnr b \<noteq> p \<longrightarrow> seatId b \<noteq> Some (seat_id c)"
  shows "selectNextAvailableSeatSafe [] d p fid =
    (Inr \<lparr>success = True, r_seatNumber = seatNumber c, r_seatId = seat_id c,
          r_method = ''safe'', attemptsNeeded = None\<rparr>,
     d\<lparr>seats := map (\<lambda>s. if seat_id s = seat_id c then s\<lparr>isAvailable := False\<rparr> else s) (seats d),
       bookings := map (\<lambda>b. if pnr b = p then b\<lparr>seatId := Some (seat_id c), checkedIn := True\<rparr> else b)
                     (bookings d)\<rparr>)"
proof -
  let ?d1 = "d\<lparr>seats := map (\<lambda>s. if seat_id s = seat_id c then s\<lparr>isAvailable := False\<rparr> else s) (seats d)\<rparr>"
  have "c \<in> set (available_seats (targetFlightId fid b) d)" using a by simp
  then have "c \<in> set (seats d)" by (simp add: available_seats_def)
  then have "list_ex (\<lambda>x. seat_id x = seat_id c) (seats d)" by (auto simp: list_ex_iff)
  then have u: "seat_update (\<lambda>x. seat_id x = seat_id c) False d = Inr ?d1"
    by (simp add: seat_update_def)
  have e: "list_ex (\<lambda>b. pnr b = p) (bookings ?d1)"
    using booking_findUnique_Some[OF b] by (auto simp: list_ex_iff)
  have n: "\<not> list_ex (\<lambda>b. pnr b \<noteq> p \<and> seatId b = Some (seat_id c)) (bookings ?d1)"
    using un by (auto simp: list_ex_iff)
  have w: "booking_update p (seat_id c) ?d1 =
    Inr (?d1\<lparr>bookings := map (\<lambda>b. if pnr b = p then b\<lparr>seatId := Some (seat_id c), checkedIn := True\<rparr> else b)
                     (bookings ?d1)\<rparr>)"
    unfolding booking_update_def using e n by simp
  have s: "select_for_update_skip_locked [] (targetFlightId fid b) d = Inr [c]"
    by (simp add: select_unlocked[OF i] a)
  show ?thesis
    unfolding selectNextAvailableSeatSafe_def transaction_def safe_tx_def
    by (simp add: b s u w)
qed






section \<open>The flight selector\<close>





section \<open>Safe calls served one after the other\<close>

text \<open>
  A transaction of the safe method never selects a seat that another transaction has
  locked, and it finds no seat exactly when every available seat of the flight is locked.
  When requesters with a booking, all drawing from one flight, are served one after the
  other from a state that satisfies the binding invariant, the calls bind the first
  available seats of the flight in order: of \<open>N\<close> calls against \<open>M\<close> available seats,
  \<open>min N M\<close> succeed, each on a different seat. When moreover the requesters are distinct
  and hold no seat before, the state invariant holds afterwards. These facts are about
  serial runs; runs in which transactions overlap in time are outside this embedding,
  where the row locks of the database are only a parameter of the selection.
\<close>

lemma sort_key_Nil_iff: "sort_key k xs = [] \<longleftrightarrow> xs = []"
  by (cases xs) simp_all

lemma select_empty_iff_all_locked:
  assumes "int4 f"
  shows "select_for_update_skip_locked locked f d = Inr [] \<longleftrightarrow>
     (\<forall>s \<in> set (seats d). seat_flightId s = f \<and> isAvailable s \<longrightarrow> seat_id s \<in> set locked)"
proof -
  let ?xs = "filter (\<lambda>s. seat_flightId s = f \<and> isAvailable s \<and> seat_id s \<notin> set locked) (seats d)"
  have "select_for_update_skip_locked locked f d = Inr [] \<longleftrightarrow> sort_key seatNumber ?xs = []"
    unfolding select_for_update_skip_locked_def using assms
    by (cases "sort_key seatNumber ?xs") simp_all
  also have "\<dots> \<longleftrightarrow> ?xs = []"
    by (rule sort_key_Nil_iff)
  also have "\<dots> \<longleftrightarrow> (\<forall>s \<in> set (seats d). seat_flightId s = f \<and> isAvailable s \<longrightarrow> seat_id s \<in> set locked)"
    by (auto simp: filter_empty_conv)
  finally show ?thesis .
qed

lemma safe_no_seat:
  assumes "booking_findUnique p d = Some b" "int4 (targetFlightId fid b)"
    "available_seats (targetFlightId fid b) d = []"
  shows "selectNextAvailableSeatSafe [] d p fid =
    (Inl (Error ''No seats available on this flight or all seats are being processed''), d)"
  using assms(1,3)
  by (simp add: selectNextAvailableSeatSafe_def transaction_def safe_tx_def
      select_unlocked[OF assms(2)])

lemma booking_findUnique_safe:
  "booking_findUnique q (snd (selectNextAvailableSeatSafe l d p fid)) = None \<longleftrightarrow>
   booking_findUnique q d = None"
proof (cases "fst (selectNextAvailableSeatSafe l d p fid)")
  case (Inl e)
  from safe_rollback[OF this] show ?thesis by simp
next
  case (Inr r)
  then have eq: "selectNextAvailableSeatSafe l d p fid =
      (Inr r, snd (selectNextAvailableSeatSafe l d p fid))"
    by (metis prod.collapse)
  from safe_commit_state[OF eq] obtain c :: seat where
    b': "bookings (snd (selectNextAvailableSeatSafe l d p fid)) =
       map (\<lambda>b. if pnr b = p then b\<lparr>seatId := Some (seat_id c), checkedIn := True\<rparr> else b) (bookings d)"
    by blast
  have "booking_findUnique q (snd (selectNextAvailableSeatSafe l d p fid)) =
      map_option (\<lambda>b. if pnr b = p then b\<lparr>seatId := Some (seat_id c), checkedIn := True\<rparr> else b)
        (booking_findUnique q d)"
    unfolding booking_findUnique_def b' by (rule find_map_pnr) simp
  then show ?thesis by simp
qed

lemma run_safe_snd_Cons:
  "snd (run_safe d ((p, fid) # reqs)) =
     snd (run_safe (snd (selectNextAvailableSeatSafe [] d p fid)) reqs)"
  by (simp split: prod.splits)

lemma run_safe_serial:
  "int4 f \<Longrightarrow> wf_db d \<Longrightarrow> binding_invariant d \<Longrightarrow> draws_from f d reqs \<Longrightarrow>
   list_all (\<lambda>(p, fid). booking_findUnique p d \<noteq> None) reqs \<Longrightarrow>
     bound_seatNumbers (fst (run_safe d reqs)) =
       take (length reqs) (map seatNumber (available_seats f d)) \<and>
     available_seats f (snd (run_safe d reqs)) = drop (length reqs) (available_seats f d) \<and>
     wf_db (snd (run_safe d reqs)) \<and> binding_invariant (snd (run_safe d reqs))"
proof (induction reqs arbitrary: d)
  case Nil
  then show ?case by simp
next
  case (Cons req reqs)
  obtain p fid where req: "req = (p, fid)" by (cases req)
  let ?res = "fst (selectNextAvailableSeatSafe [] d p fid)"
  let ?d' = "snd (selectNextAvailableSeatSafe [] d p fid)"
  from Cons.prems(5) obtain b where b: "booking_findUnique p d = Some b"
    by (auto simp: req)
  with Cons.prems(4) have t: "targetFlightId fid b = f" by (simp add: draws_from_def req)
  from Cons.prems(1) t have i: "int4 (targetFlightId fid b)" by simp
  have wf': "wf_db ?d'" using Cons.prems(2) by (rule wf_safe)
  have inv': "binding_invariant ?d'" using Cons.prems(2,3) by (rule safe_binding_invariant)
  have "draws_from f d reqs" using Cons.prems(4) by (simp add: draws_from_def)
  then have dr': "draws_from f ?d' reqs" by (simp add: draws_from_safe)
  have kn': "list_all (\<lambda>(p, fid). booking_findUnique p ?d' \<noteq> None) reqs"
    using Cons.prems(5) by (simp add: booking_findUnique_safe)
  note IH = Cons.IH[OF Cons.prems(1) wf' inv' dr' kn']
  show ?case
  proof (cases "available_seats f d")
    case Nil
    from safe_no_seat[OF b i] Nil t
    have "?res = Inl (Error ''No seats available on this flight or all seats are being processed'')"
      "?d' = d" by simp_all
    with IH Nil show ?thesis
      unfolding req run_safe_Cons run_safe_snd_Cons by simp
  next
    case (Cons c rest)
    have "c \<in> set (available_seats f d)" using Cons by simp
    then have c: "c \<in> set (seats d)" "isAvailable c" by (auto simp: available_seats_def)
    have un: "\<forall>b \<in> set (bookings d). pnr b \<noteq> p \<longrightarrow> seatId b \<noteq> Some (seat_id c)"
      using binding_invariant_unreferenced[OF \<open>binding_invariant d\<close> c] by blast
    from Cons t have a: "available_seats (targetFlightId fid b) d = c # rest" by simp
    note s = safe_first_candidate[OF b i a un]
    from s have r: "?res = Inr \<lparr>success = True, r_seatNumber = seatNumber c, r_seatId = seat_id c,
          r_method = ''safe'', attemptsNeeded = None\<rparr>"
      and s': "seats ?d' =
        map (\<lambda>s. if seat_id s = seat_id c then s\<lparr>isAvailable := False\<rparr> else s) (seats d)"
      by simp_all
    from \<open>wf_db d\<close> have ds: "distinct (map seat_id (seats d))" by (simp add: wf_db_def)
    from available_seats_tail[OF ds Cons s'] have "available_seats f ?d' = rest" .
    with IH Cons r show ?thesis
      unfolding req run_safe_Cons run_safe_snd_Cons by simp
  qed
qed

lemma find_map_other_pnr:
  "q \<noteq> p \<Longrightarrow>
     find (\<lambda>b. pnr b = q) (map (\<lambda>b. if pnr b = p then b\<lparr>seatId := x, checkedIn := y\<rparr> else b) bs) =
     find (\<lambda>b. pnr b = q) bs"
  by (induction bs) auto

lemma booking_findUnique_safe_other:
  assumes "q \<noteq> p"
  shows "booking_findUnique q (snd (selectNextAvailableSeatSafe l d p fid)) = booking_findUnique q d"
proof (cases "fst (selectNextAvailableSeatSafe l d p fid)")
  case (Inl e)
  from safe_rollback[OF this] show ?thesis by simp
next
  case (Inr r)
  then have eq: "selectNextAvailableSeatSafe l d p fid =
      (Inr r, snd (selectNextAvailableSeatSafe l d p fid))"
    by (metis prod.collapse)
  from safe_commit_state[OF eq] obtain c :: seat where
    b': "bookings (snd (selectNextAvailableSeatSafe l d p fid)) =
       map (\<lambda>b. if pnr b = p then b\<lparr>seatId := Some (seat_id c), checkedIn := True\<rparr> else b) (bookings d)"
    by blast
  show ?thesis unfolding booking_findUnique_def b' using assms by (rule find_map_other_pnr)
qed

lemma run_safe_state_invariant:
  "wf_db d \<Longrightarrow> state_invariant d \<Longrightarrow> distinct (map fst reqs) \<Longrightarrow>
   list_all (\<lambda>(p, fid). case booking_findUnique p d of None \<Rightarrow> True
                                                   | Some b \<Rightarrow> seatId b = None) reqs \<Longrightarrow>
     state_invariant (snd (run_safe d reqs))"
proof (induction reqs arbitrary: d)
  case Nil
  then show ?case by simp
next
  case (Cons req reqs)
  obtain p fid where req: "req = (p, fid)" by (cases req)
  let ?d' = "snd (selectNextAvailableSeatSafe [] d p fid)"
  have free: "\<forall>b. booking_findUnique p d = Some b \<longrightarrow> seatId b = None"
    using Cons.prems(4) by (auto simp: req)
  have wf': "wf_db ?d'" using Cons.prems(1) by (rule wf_safe)
  have inv': "state_invariant ?d'" using Cons.prems(1,2) free by (rule safe_state_invariant)
  have di: "distinct (map fst reqs)" and np: "\<forall>x \<in> set reqs. fst x \<noteq> p"
    using Cons.prems(3) by (auto simp: req)
  have "list_all (\<lambda>(q, fid). case booking_findUnique q ?d' of None \<Rightarrow> True
                                                   | Some b \<Rightarrow> seatId b = None) reqs"
    unfolding list_all_iff
  proof
    fix x assume x: "x \<in> set reqs"
    obtain q fq where xq: "x = (q, fq)" by (cases x)
    from x np xq have "q \<noteq> p" by auto
    from booking_findUnique_safe_other[OF this] Cons.prems(4) x xq
    show "case x of (q, fid) \<Rightarrow> (case booking_findUnique q ?d' of None \<Rightarrow> True
                                                   | Some b \<Rightarrow> seatId b = None)"
      by (auto simp: list_all_iff)
  qed
  from Cons.IH[OF wf' inv' di this] show ?case
    unfolding req run_safe_snd_Cons .
qed


lemma run_safe_serial_count:
  assumes "int4 f" "wf_db d" "binding_invariant d" "draws_from f d reqs"
    "list_all (\<lambda>(p, fid). booking_findUnique p d \<noteq> None) reqs"
  shows "length (bound_seatNumbers (fst (run_safe d reqs))) =
           min (length reqs) (length (available_seats f d))"
    and "distinct (bound_seatNumbers (fst (run_safe d reqs)))"
proof -
  from run_safe_serial[OF assms]
  have b: "bound_seatNumbers (fst (run_safe d reqs)) =
      take (length reqs) (map seatNumber (available_seats f d))" by simp
  show "length (bound_seatNumbers (fst (run_safe d reqs))) =
           min (length reqs) (length (available_seats f d))"
    unfolding b by (simp add: min.commute)
  from available_seats_strictly_sorted[OF assms(2), of f]
  have "distinct (map seatNumber (available_seats f d))" by (simp add: strict_sorted_iff)
  then show "distinct (bound_seatNumbers (fst (run_safe d reqs)))"
    unfolding b by (rule distinct_take)
qed

lemma serial_scenario:
  "fst (run_safe scenario_db [(''PNR001'', None), (''PNR002'', None), (''PNR003'', None)]) =
     [Inr \<lparr>success = True, r_seatNumber = ''10A'', r_seatId = 1, r_method = ''safe'',
           attemptsNeeded = None\<rparr>,
      Inr \<lparr>success = True, r_seatNumber = ''10B'', r_seatId = 2, r_method = ''safe'',
           attemptsNeeded = None\<rparr>,
      Inl (Error ''No seats available on this flight or all seats are being processed'')]"
  by code_simp

end
